theory Spec2Isabelle
  imports Complex_Main "HOL-Library.AList" "HOL-Library.Multiset"
begin

section \<open>Integron_Finder: the annotation module\<close>

text \<open>
  A shallow embedding of \<^verbatim>\<open>integron_finder/annotation.py\<close>: \<^verbatim>\<open>add_feature\<close>, which
  projects the description table of the integrons of a replicon onto the replicon's
  feature list, and \<^verbatim>\<open>func_annot\<close>, which annotates the proteins of the integrons
  with an external profile search.

  Python exceptions are values of the type \<open>error\<close>. A function that mutates its
  argument before it raises returns the mutated state together with the error.
\<close>

datatype error =
    IndexError
  | KeyError string
  | UnboundLocalError string
  | RuntimeError string

subsection \<open>Data\<close>

text \<open>
  The columns of a feature row. The floating-point columns hold a real number or
  NaN (\<open>None\<close>); they are only copied and compared here.
\<close>

record feature_row =
  pos_beg :: int
  pos_end :: int
  strand :: int
  evalue :: "real option"
  type_elt :: string
  model :: string
  distance_2attC :: "real option"
  annotation :: string

text \<open>
  A row of the description table \<^verbatim>\<open>integron_desc\<close>: the feature row of one element
  with the integron it belongs to, the element's identifier and the integron's type
  (the column \<^verbatim>\<open>type\<close>, here \<open>integron_type\<close>).
\<close>

record desc_row = feature_row +
  ID_integron :: string
  element :: string
  integron_type :: string

text \<open>A record of the protein FASTA file, as \<^verbatim>\<open>read_multi_prot_fasta\<close> yields it.\<close>

record prot =
  prot_id :: string
  prot_seq :: string

text \<open>
  Biopython's locations: \<^verbatim>\<open>FeatureLocation(start, end)\<close>, and the join of several
  parts that \<^verbatim>\<open>f1 + f2\<close> builds. The constructors only hold the positions: Biopython
  is not part of the sources, and what it checks on them is not modelled.
\<close>

datatype location =
    FeatureLocation int int
  | CompoundLocation "location list"

text \<open>
  A \<^verbatim>\<open>SeqFeature\<close>. The attributes \<^verbatim>\<open>strand\<close> and \<^verbatim>\<open>type\<close> are the fields
  \<open>feat_strand\<close> and \<open>feat_type\<close>. The qualifiers are a dictionary from strings to
  strings, kept as an association list with distinct keys.
\<close>

record seq_feature =
  location :: location
  feat_strand :: int
  feat_type :: string
  qualifiers :: "(string \<times> string) list"

text \<open>The \<^verbatim>\<open>SeqRecord\<close> of the replicon: \<^verbatim>\<open>len(replicon)\<close> is the length of \<open>seq\<close>.\<close>

record replicon =
  name :: string
  seq :: string
  features :: "seq_feature list"

subsection \<open>Helpers for the Python and pandas primitives\<close>

text \<open>
  Subscription \<^verbatim>\<open>xs[i]\<close> of a sequence by an integer: positions \<open>-len\<close> to \<open>-1\<close>
  address the elements from the end, anything outside \<open>-len\<close> to \<open>len - 1\<close> raises
  \<^verbatim>\<open>IndexError\<close>.
\<close>

definition py_index :: "'a list \<Rightarrow> int \<Rightarrow> error + 'a" where
  "py_index xs i =
     (if 0 \<le> i \<and> i < int (length xs) then Inr (xs ! nat i)
      else if i < 0 \<and> - int (length xs) \<le> i then Inr (xs ! nat (int (length xs) + i))
      else Inl IndexError)"

text \<open>\<^verbatim>\<open>Index.unique()\<close>: the distinct values in order of first appearance.\<close>

fun unique :: "'a list \<Rightarrow> 'a list" where
  "unique [] = []"
| "unique (x # xs) = x # unique (filter (\<lambda>y. y \<noteq> x) xs)"

text \<open>
  \<^verbatim>\<open>integron.pos_beg.diff() > dist_threshold\<close>: the first entry of \<^verbatim>\<open>diff()\<close> is NaN,
  which compares false; entry \<open>i\<close> compares the gap between rows \<open>i - 1\<close> and \<open>i\<close>.
\<close>

definition diff_gt :: "int list \<Rightarrow> int \<Rightarrow> bool list" where
  "diff_gt xs t =
     (case xs of [] \<Rightarrow> [] | x # ys \<Rightarrow> False # map (\<lambda>(a, b). b - a > t) (zip xs ys))"

text \<open>\<^verbatim>\<open>np.where(diff)[0][0]\<close>: the index of the first true entry.\<close>

definition where_first :: "bool list \<Rightarrow> error + nat" where
  "where_first bs =
     (if True \<in> set bs then Inr (length (takeWhile (\<lambda>b. \<not> b) bs)) else Inl IndexError)"

text \<open>\<^verbatim>\<open>replicon.features.append(tmp)\<close>\<close>

definition append_feature :: "replicon \<Rightarrow> seq_feature \<Rightarrow> replicon" where
  "append_feature r f = r\<lparr>features := features r @ [f]\<rparr>"

subsection \<open>\<^verbatim>\<open>add_feature\<close>\<close>

text \<open>
  The first match of the element's identifier in the protein file:
  \<^verbatim>\<open>[prt for prt in read_multi_prot_fasta(prot_file) if prt.id == elt.element][0].seq\<close>.
\<close>

definition translation_of :: "prot list \<Rightarrow> string \<Rightarrow> error + string" where
  "translation_of prot_file elt_id =
     (case py_index (filter (\<lambda>prt. prot_id prt = elt_id) prot_file) 0 of
        Inl e \<Rightarrow> Inl e
      | Inr prt \<Rightarrow> Inr (prot_seq prt))"

text \<open>
  The branch for an integron with a single element (\<^verbatim>\<open>integron_desc.loc[integron_id]\<close>
  is a \<^verbatim>\<open>Series\<close>).
\<close>

definition add_single ::
  "replicon \<Rightarrow> string \<Rightarrow> desc_row \<Rightarrow> prot list \<Rightarrow> replicon \<times> error option" where
  "add_single r integron_id the_elt prot_file =
     (let type_integron = integron_type the_elt;
          start_integron = pos_beg the_elt;
          end_integron = pos_end the_elt;
          tmp = \<lparr>location = FeatureLocation (start_integron - 1) end_integron,
                 feat_strand = 0,
                 feat_type = ''integron'',
                 qualifiers = [(''integron_id'', integron_id), (''integron_type'', type_integron)]\<rparr>;
          r1 = append_feature r tmp
      in if type_elt the_elt = ''protein'' then
           (let tmp = \<lparr>location = FeatureLocation (start_integron - 1) end_integron,
                       feat_strand = strand the_elt,
                       feat_type = (if annotation the_elt \<noteq> ''intI'' then ''CDS'' else ''integrase''),
                       qualifiers = [(''protein_id'', element the_elt),
                                     (''gene'', annotation the_elt),
                                     (''model'', model the_elt)]\<rparr>
            in case translation_of prot_file (element the_elt) of
                 Inl e \<Rightarrow> (r1, Some e)
               | Inr s \<Rightarrow>
                   (append_feature r1
                      (tmp\<lparr>qualifiers := AList.update ''translation'' s (qualifiers tmp)\<rparr>),
                    None))
         else
           (let tmp = \<lparr>location = FeatureLocation (start_integron - 1) end_integron,
                       feat_strand = strand the_elt,
                       feat_type = type_elt the_elt,
                       qualifiers = AList.update ''model'' (model the_elt)
                                      [(type_elt the_elt, element the_elt)]\<rparr>
            in (append_feature r1 tmp, None)))"

text \<open>
  The branch for an integron with several elements. First the umbrella feature
  (lines 176 to 203), then the loop over the rows (lines 205 to 225).
\<close>

definition umbrella ::
  "replicon \<Rightarrow> string \<Rightarrow> desc_row list \<Rightarrow> int \<Rightarrow> error + seq_feature" where
  "umbrella r integron_id integron dist_threshold =
     (case py_index (map integron_type integron) 0 of
        Inl e \<Rightarrow> Inl e
      | Inr type_integron \<Rightarrow>
          (let diff = diff_gt (map pos_beg integron) dist_threshold
           in if True \<in> set diff then
                (case where_first diff of
                   Inl e \<Rightarrow> Inl e
                 | Inr pos \<Rightarrow>
                     (case py_index (map pos_beg integron) (int pos) of
                        Inl e \<Rightarrow> Inl e
                      | Inr start_integron_1 \<Rightarrow>
                          (case py_index (map pos_end integron) (int pos - 1) of
                             Inl e \<Rightarrow> Inl e
                           | Inr end_integron_2 \<Rightarrow>
                               (let end_integron_1 = int (length (seq r));
                                    start_integron_2 = 1;
                                    f1 = FeatureLocation (start_integron_1 - 1) end_integron_1;
                                    f2 = FeatureLocation (start_integron_2 - 1) end_integron_2
                                in Inr \<lparr>location = CompoundLocation [f1, f2],
                                        feat_strand = 0,
                                        feat_type = ''integron'',
                                        qualifiers = [(''integron_id'', integron_id),
                                                      (''integron_type'', type_integron)]\<rparr>))))
              else
                (case py_index (map pos_beg integron) 0 of
                   Inl e \<Rightarrow> Inl e
                 | Inr start_integron \<Rightarrow>
                     (case py_index (map pos_end integron) (- 1) of
                        Inl e \<Rightarrow> Inl e
                      | Inr end_integron \<Rightarrow>
                          Inr \<lparr>location = FeatureLocation (start_integron - 1) end_integron,
                               feat_strand = 0,
                               feat_type = ''integron'',
                               qualifiers = [(''integron_id'', integron_id),
                                             (''integron_type'', type_integron)]\<rparr>))))"

text \<open>The feature of one row of the loop \<^verbatim>\<open>for idx, elt in integron.iterrows()\<close>.\<close>

definition elt_feature :: "prot list \<Rightarrow> desc_row \<Rightarrow> error + seq_feature" where
  "elt_feature prot_file elt =
     (if type_elt elt = ''protein'' then
        (let tmp = \<lparr>location = FeatureLocation (pos_beg elt - 1) (pos_end elt),
                    feat_strand = strand elt,
                    feat_type = (if annotation elt \<noteq> ''intI'' then ''CDS'' else ''integrase''),
                    qualifiers = [(''protein_id'', element elt),
                                  (''gene'', annotation elt),
                                  (''model'', model elt)]\<rparr>
         in case translation_of prot_file (element elt) of
              Inl e \<Rightarrow> Inl e
            | Inr s \<Rightarrow> Inr (tmp\<lparr>qualifiers := AList.update ''translation'' s (qualifiers tmp)\<rparr>))
      else
        Inr \<lparr>location = FeatureLocation (pos_beg elt - 1) (pos_end elt),
             feat_strand = strand elt,
             feat_type = type_elt elt,
             qualifiers = AList.update ''model'' (model elt) [(type_elt elt, element elt)]\<rparr>)"

fun add_elts :: "prot list \<Rightarrow> replicon \<Rightarrow> desc_row list \<Rightarrow> replicon \<times> error option" where
  "add_elts prot_file r [] = (r, None)"
| "add_elts prot_file r (elt # elts) =
     (case elt_feature prot_file elt of
        Inl e \<Rightarrow> (r, Some e)
      | Inr tmp \<Rightarrow> add_elts prot_file (append_feature r tmp) elts)"

definition add_several ::
  "replicon \<Rightarrow> string \<Rightarrow> desc_row list \<Rightarrow> prot list \<Rightarrow> int \<Rightarrow> replicon \<times> error option" where
  "add_several r integron_id integron prot_file dist_threshold =
     (case umbrella r integron_id integron dist_threshold of
        Inl e \<Rightarrow> (r, Some e)
      | Inr tmp \<Rightarrow> add_elts prot_file (append_feature r tmp) integron)"

text \<open>
  One turn of the loop over the integron identifiers: \<^verbatim>\<open>integron_desc.loc[integron_id]\<close>
  is a \<^verbatim>\<open>Series\<close> when exactly one row carries the identifier and a \<^verbatim>\<open>DataFrame\<close>
  of the rows carrying it, in table order, otherwise.
\<close>

definition add_integron ::
  "replicon \<Rightarrow> desc_row list \<Rightarrow> prot list \<Rightarrow> int \<Rightarrow> string \<Rightarrow> replicon \<times> error option" where
  "add_integron r integron_desc prot_file dist_threshold integron_id =
     (case filter (\<lambda>row. ID_integron row = integron_id) integron_desc of
        [the_elt] \<Rightarrow> add_single r integron_id the_elt prot_file
      | integron \<Rightarrow> add_several r integron_id integron prot_file dist_threshold)"

fun add_integrons ::
  "replicon \<Rightarrow> desc_row list \<Rightarrow> prot list \<Rightarrow> int \<Rightarrow> string list \<Rightarrow> replicon \<times> error option" where
  "add_integrons r integron_desc prot_file dist_threshold [] = (r, None)"
| "add_integrons r integron_desc prot_file dist_threshold (integron_id # ids) =
     (case add_integron r integron_desc prot_file dist_threshold integron_id of
        (r1, Some e) \<Rightarrow> (r1, Some e)
      | (r1, None) \<Rightarrow> add_integrons r1 integron_desc prot_file dist_threshold ids)"

text \<open>\<^verbatim>\<open>replicon.name[-16:]\<close> of a name longer than 16 characters.\<close>

definition truncate_name :: "replicon \<Rightarrow> replicon" where
  "truncate_name r =
     (if length (name r) > 16 then r\<lparr>name := drop (length (name r) - 16) (name r)\<rparr> else r)"

definition add_feature ::
  "replicon \<Rightarrow> desc_row list \<Rightarrow> prot list \<Rightarrow> int \<Rightarrow> replicon \<times> error option" where
  "add_feature r integron_desc prot_file dist_threshold =
     (case add_integrons r integron_desc prot_file dist_threshold
             (unique (map ID_integron integron_desc)) of
        (r1, Some e) \<Rightarrow> (r1, Some e)
      | (r1, None) \<Rightarrow> (truncate_name r1, None))"

subsection \<open>Example inputs\<close>

text \<open>A replicon with the accession-style name of the source comment (line 228).\<close>

definition gi_replicon :: replicon where
  "gi_replicon = \<lparr>name = ''gi|00000000|gb|XX123456.2|'', seq = replicate 6000 CHR ''A'', features = []\<rparr>"

text \<open>A row of the description table, columns in the order of the arguments.\<close>

definition mk_row ::
  "string \<Rightarrow> string \<Rightarrow> int \<Rightarrow> int \<Rightarrow> int \<Rightarrow> string \<Rightarrow> string \<Rightarrow> string \<Rightarrow> string \<Rightarrow> desc_row" where
  "mk_row iid elt b e s te an mo ty =
     \<lparr>pos_beg = b, pos_end = e, strand = s, evalue = None, type_elt = te, model = mo,
      distance_2attC = None, annotation = an, ID_integron = iid, element = elt,
      integron_type = ty\<rparr>"

text \<open>
  An integrase with a promoter inside the gene (an In0 element): the last row does not
  end last.
\<close>

definition nested_desc :: "desc_row list" where
  "nested_desc =
     [mk_row ''integron_01'' ''ACBA.007.P01_13_1'' 100 900 1 ''protein'' ''intI''
        ''intersection_tyr_intI'' ''In0'',
      mk_row ''integron_01'' ''Pc_int1'' 200 230 (- 1) ''promoter'' ''Pc_1'' ''NA'' ''In0'']"

definition acba_prots :: "prot list" where
  "acba_prots = [\<lparr>prot_id = ''ACBA.007.P01_13_1'', prot_seq = ''MKTATAPLPPLRSVKVLDQ''\<rparr>,
                 \<lparr>prot_id = ''ACBA.007.P01_13_2'', prot_seq = ''MSNAVRLTCEQ''\<rparr>]"

text \<open>Two attC sites on either side of the origin of a replicon of 6000 bases.\<close>

definition wrap_desc :: "desc_row list" where
  "wrap_desc =
     [mk_row ''integron_01'' ''attc_001'' 10 70 (- 1) ''attC'' ''attC'' ''attc_4'' ''CALIN'',
      mk_row ''integron_01'' ''attc_002'' 5900 5990 (- 1) ''attC'' ''attC'' ''attc_4'' ''CALIN'']"

text \<open>
  A complete integron (integrase, two attC sites and a cassette protein) followed by a
  lone attC site.
\<close>

definition acba_desc :: "desc_row list" where
  "acba_desc =
     [mk_row ''integron_01'' ''ACBA.007.P01_13_1'' 55 1014 1 ''protein'' ''intI''
        ''intersection_tyr_intI'' ''complete'',
      mk_row ''integron_01'' ''attc_001'' 1200 1260 (- 1) ''attC'' ''attC'' ''attc_4'' ''complete'',
      mk_row ''integron_01'' ''ACBA.007.P01_13_2'' 1300 1900 (- 1) ''protein'' ''protein''
        ''NA'' ''complete'',
      mk_row ''integron_01'' ''attc_002'' 2000 2070 (- 1) ''attC'' ''attC'' ''attc_4'' ''complete'',
      mk_row ''integron_02'' ''attc_003'' 5000 5100 1 ''attC'' ''attC'' ''attc_4'' ''CALIN'']"

text \<open>An integrase alone: an integron of a single row, which is a protein.\<close>

definition in0_desc :: "desc_row list" where
  "in0_desc =
     [mk_row ''integron_01'' ''ACBA.007.P01_13_1'' 55 1014 1 ''protein'' ''intI''
        ''intersection_tyr_intI'' ''In0'']"

text \<open>A protein file in which two records carry the same identifier.\<close>

definition dup_prots :: "prot list" where
  "dup_prots = [\<lparr>prot_id = ''ACBA.007.P01_13_1'', prot_seq = ''MKTATAPLPPLRSVKVLDQ''\<rparr>,
                \<lparr>prot_id = ''ACBA.007.P01_13_1'', prot_seq = ''MSNAVRLTCEQ''\<rparr>]"

section \<open>Functional annotation\<close>

subsection \<open>Data and collaborators of \<^verbatim>\<open>func_annot\<close>\<close>

text \<open>
  A row of a hit table, as \<^verbatim>\<open>read_hmm\<close> returns it. The columns \<^verbatim>\<open>strand\<close>,
  \<^verbatim>\<open>pos_beg\<close>, \<^verbatim>\<open>pos_end\<close> and \<^verbatim>\<open>evalue\<close> carry the prefix \<open>hit_\<close>. The evalue of a
  hit is a number parsed from the output of the search, never NaN.
\<close>

record hit =
  Accession_number :: string
  query_name :: string
  ID_query :: string
  ID_prot :: string
  hit_strand :: int
  hit_pos_beg :: int
  hit_pos_end :: int
  hit_evalue :: real

text \<open>
  An \<^verbatim>\<open>Integron\<close>: five tables of feature rows, each a list of rows with their index
  label, which is unique within a table.
\<close>

record integron =
  ID_replicon :: string
  integrase :: "(string \<times> feature_row) list"
  attC :: "(string \<times> feature_row) list"
  promoter :: "(string \<times> feature_row) list"
  attI :: "(string \<times> feature_row) list"
  proteins :: "(string \<times> feature_row) list"

text \<open>The fields of the configuration that \<^verbatim>\<open>func_annot\<close> reads; \<open>cpu\<close> is \<^verbatim>\<open>str(cfg.cpu)\<close>.\<close>

record config =
  hmmsearch :: string
  cpu :: string

text \<open>
  The outcome of \<^verbatim>\<open>subprocess.call\<close>: the return code of the process, or the message of
  the exception raised when the process could not be started.
\<close>

datatype call_result = Exit int | LaunchError string

text \<open>
  What \<^verbatim>\<open>func_annot\<close> uses and this module does not define: the method \<^verbatim>\<open>type()\<close> of an
  integron, \<^verbatim>\<open>subprocess.call\<close> on a command line (the result depends on the subset
  file the command reads, given as second argument), \<^verbatim>\<open>read_hmm\<close> on the name of the
  replicon, the path of the output, the subset that was searched, and the two
  thresholds, \<^verbatim>\<open>get_name_from_path\<close>, and the method \<^verbatim>\<open>sort_values("evalue")\<close> of a
  pandas table. The method is called with the default algorithm, which returns the
  rows in ascending order of evalue and does not fix the order of rows of equal
  evalue: that order is whatever the environment's sort makes it.
\<close>

record env =
  itype :: "integron \<Rightarrow> string"
  call :: "string list \<Rightarrow> prot list \<Rightarrow> call_result"
  read_hmm :: "string \<Rightarrow> string \<Rightarrow> prot list \<Rightarrow> real \<Rightarrow> real \<Rightarrow> hit list"
  get_name_from_path :: "string \<Rightarrow> string"
  sort_values :: "hit list \<Rightarrow> hit list"

text \<open>\<^verbatim>\<open>str\<close> of an integer, in decimal.\<close>

fun str_nat :: "nat \<Rightarrow> string" where
  "str_nat n =
     (if n < 10 then [''0123456789'' ! n]
      else str_nat (n div 10) @ [''0123456789'' ! (n mod 10)])"

declare str_nat.simps [simp del]

definition str_int :: "int \<Rightarrow> string" where
  "str_int i = (if i < 0 then ''-'' @ str_nat (nat (- i)) else str_nat (nat i))"

text \<open>\<^verbatim>\<open>os.path.join\<close> of two components.\<close>

definition path_join :: "string \<Rightarrow> string \<Rightarrow> string" where
  "path_join a b =
     (if b \<noteq> [] \<and> hd b = CHR ''/'' then b
      else if a = [] \<or> last a = CHR ''/'' then a @ b
      else a @ ''/'' @ b)"

text \<open>\<^verbatim>\<open>drop_duplicates(subset="ID_prot")\<close>: the first row of each identifier is kept.\<close>

fun drop_duplicates :: "hit list \<Rightarrow> hit list" where
  "drop_duplicates [] = []"
| "drop_duplicates (h # hs) = h # drop_duplicates (filter (\<lambda>g. ID_prot g \<noteq> ID_prot h) hs)"

text \<open>The rule for merged hit tables: \<^verbatim>\<open>.sort_values("evalue").drop_duplicates(subset="ID_prot")\<close>.\<close>

definition sort_dedup :: "env \<Rightarrow> hit list \<Rightarrow> hit list" where
  "sort_dedup ev hs = drop_duplicates (sort_values ev hs)"

text \<open>
  The three assignments \<^verbatim>\<open>integron.proteins.loc[res.ID_prot, col] = res.col.values\<close> for
  the columns \<^verbatim>\<open>evalue\<close>, \<^verbatim>\<open>annotation\<close> and \<^verbatim>\<open>model\<close>. A label of the list that is not
  in the index raises \<^verbatim>\<open>KeyError\<close> in the first assignment, before any row changes.
  The identifiers of \<open>res\<close> are distinct.
\<close>

definition loc_assign ::
  "(string \<times> feature_row) list \<Rightarrow> hit list \<Rightarrow> error + (string \<times> feature_row) list" where
  "loc_assign tbl res =
     (case find (\<lambda>h. ID_prot h \<notin> fst ` set tbl) res of
        Some h \<Rightarrow> Inl (KeyError (ID_prot h))
      | None \<Rightarrow>
          Inr (map (\<lambda>(label, row).
                 case find (\<lambda>h. ID_prot h = label) res of
                   None \<Rightarrow> (label, row)
                 | Some h \<Rightarrow>
                     (label, row\<lparr>evalue := Some (hit_evalue h),
                                 annotation := query_name h,
                                 model := ID_query h\<rparr>))
               tbl))"

subsection \<open>\<^verbatim>\<open>func_annot\<close>\<close>

text \<open>The command line of lines 96 to 105, for a bound \<^verbatim>\<open>prot_nb\<close>.\<close>

definition hmm_out_path :: "env \<Rightarrow> string \<Rightarrow> string \<Rightarrow> string \<Rightarrow> string" where
  "hmm_out_path ev replicon_name out_dir hmm =
     path_join out_dir ((replicon_name @ ''_'' @ get_name_from_path ev hmm) @ ''_fa.res'')"

definition hmm_cmd ::
  "env \<Rightarrow> config \<Rightarrow> string \<Rightarrow> string \<Rightarrow> nat \<Rightarrow> string \<Rightarrow> string list" where
  "hmm_cmd ev cfg replicon_name out_dir prot_nb hmm =
     (let prot_tmp = path_join out_dir (replicon_name @ ''_subseqprot.tmp'');
          name_wo_ext = replicon_name @ ''_'' @ get_name_from_path ev hmm;
          hmm_out = path_join out_dir (name_wo_ext @ ''_fa.res'');
          hmm_tableout = path_join out_dir (name_wo_ext @ ''_fa_table.res'')
      in [hmmsearch cfg,
          ''-Z'', str_nat prot_nb,
          ''--cpu'', cpu cfg,
          ''--tblout'', hmm_tableout,
          ''-o'', hmm_out,
          hmm,
          prot_tmp])"

text \<open>
  The loop over the profiles. \<open>prot_nb\<close> is the local variable of that name, \<open>None\<close>
  while it is unbound; \<open>bank\<close> is the content of the subset file; \<open>calls\<close> collects the
  command lines handed to \<^verbatim>\<open>call\<close>, with the bank they ran on.
\<close>

fun search_hmms ::
  "env \<Rightarrow> config \<Rightarrow> string \<Rightarrow> string \<Rightarrow> real \<Rightarrow> real \<Rightarrow> nat option \<Rightarrow> prot list \<Rightarrow>
   (string list \<times> prot list) list \<Rightarrow> hit list \<Rightarrow> string list \<Rightarrow>
   (string list \<times> prot list) list \<times> (error + hit list)" where
  "search_hmms ev cfg replicon_name out_dir eval_thr coverage prot_nb bank calls
     func_annotate_res [] = (calls, Inr func_annotate_res)"
| "search_hmms ev cfg replicon_name out_dir eval_thr coverage prot_nb bank calls
     func_annotate_res (hmm # hmm_files) =
     (case prot_nb of
        None \<Rightarrow> (calls, Inl (UnboundLocalError ''prot_nb''))
      | Some n \<Rightarrow>
          (let cmd = hmm_cmd ev cfg replicon_name out_dir n hmm
           in case call ev cmd bank of
                LaunchError err \<Rightarrow>
                  (calls @ [(cmd, bank)], Inl (RuntimeError (hd cmd @ '' failed : '' @ err)))
              | Exit returncode \<Rightarrow>
                  if returncode \<noteq> 0 then
                    (calls @ [(cmd, bank)],
                     Inl (RuntimeError (hd cmd @ '' failed return code = '' @ str_int returncode)))
                  else
                    (let hmm_in = sort_dedup ev
                           (read_hmm ev replicon_name
                              (hmm_out_path ev replicon_name out_dir hmm) bank eval_thr coverage)
                     in search_hmms ev cfg replicon_name out_dir eval_thr coverage prot_nb bank
                          (calls @ [(cmd, bank)]) (func_annotate_res @ hmm_in) hmm_files)))"

text \<open>
  The body of the loop over the integrons for an integron that is annotated (lines 81
  to 121). The loop \<^verbatim>\<open>for prot_nb, prot in enumerate(all_prots, 1)\<close> leaves \<^verbatim>\<open>prot_nb\<close>
  at the number of records of the protein file, and as it was when the file has none.
\<close>

definition annotate ::
  "env \<Rightarrow> config \<Rightarrow> string \<Rightarrow> prot list \<Rightarrow> string list \<Rightarrow> string \<Rightarrow> real \<Rightarrow> real \<Rightarrow>
   nat option \<Rightarrow> (string list \<times> prot list) list \<Rightarrow> integron \<Rightarrow>
   nat option \<times> (string list \<times> prot list) list \<times> (error + integron)" where
  "annotate ev cfg replicon_name prot_file hmm_files out_dir eval_thr coverage prot_nb calls
     integron =
     (let prot_to_annotate =
            filter (\<lambda>prot. prot_id prot \<in> fst ` set (proteins integron)) prot_file;
          prot_nb1 = (if prot_file = [] then prot_nb else Some (length prot_file))
      in case search_hmms ev cfg replicon_name out_dir eval_thr coverage prot_nb1
                prot_to_annotate calls [] hmm_files of
           (calls1, Inl e) \<Rightarrow> (prot_nb1, calls1, Inl e)
         | (calls1, Inr func_annotate_res) \<Rightarrow>
             (case loc_assign (proteins integron) (sort_dedup ev func_annotate_res) of
                Inl e \<Rightarrow> (prot_nb1, calls1, Inl e)
              | Inr tbl \<Rightarrow> (prot_nb1, calls1, Inr (integron\<lparr>proteins := tbl\<rparr>))))"

text \<open>
  The loop over the integrons. The list of integrons is mutated in place: the result
  holds it as it is when the function returns or raises.
\<close>

fun annot_loop ::
  "env \<Rightarrow> config \<Rightarrow> string \<Rightarrow> prot list \<Rightarrow> string list \<Rightarrow> string \<Rightarrow> real \<Rightarrow> real \<Rightarrow>
   nat option \<Rightarrow> (string list \<times> prot list) list \<Rightarrow> integron list \<Rightarrow>
   integron list \<times> (string list \<times> prot list) list \<times> error option" where
  "annot_loop ev cfg replicon_name prot_file hmm_files out_dir eval_thr coverage prot_nb calls
     [] = ([], calls, None)"
| "annot_loop ev cfg replicon_name prot_file hmm_files out_dir eval_thr coverage prot_nb calls
     (integron # integrons) =
     (if itype ev integron \<noteq> ''In0'' \<and> proteins integron \<noteq> [] then
        (case annotate ev cfg replicon_name prot_file hmm_files out_dir eval_thr coverage
                prot_nb calls integron of
           (prot_nb1, calls1, Inl e) \<Rightarrow> (integron # integrons, calls1, Some e)
         | (prot_nb1, calls1, Inr integron1) \<Rightarrow>
             (case annot_loop ev cfg replicon_name prot_file hmm_files out_dir eval_thr
                     coverage prot_nb1 calls1 integrons of
                (integrons1, calls2, r) \<Rightarrow> (integron1 # integrons1, calls2, r)))
      else
        (case annot_loop ev cfg replicon_name prot_file hmm_files out_dir eval_thr coverage
                prot_nb calls integrons of
           (integrons1, calls2, r) \<Rightarrow> (integron # integrons1, calls2, r)))"

text \<open>
  \<^verbatim>\<open>func_annot\<close>: the integrons after the call, the external commands run, and the
  exception raised, if any. The removal and the writing of the subset file are
  represented by the bank each command runs on.
\<close>

definition func_annot ::
  "env \<Rightarrow> integron list \<Rightarrow> replicon \<Rightarrow> prot list \<Rightarrow> string list \<Rightarrow> config \<Rightarrow> string \<Rightarrow>
   real \<Rightarrow> real \<Rightarrow> integron list \<times> (string list \<times> prot list) list \<times> error option" where
  "func_annot ev integrons replicon prot_file hmm_files cfg out_dir eval_thr coverage =
     annot_loop ev cfg (name replicon) prot_file hmm_files out_dir eval_thr coverage
       None [] integrons"

subsection \<open>Example inputs of \<^verbatim>\<open>func_annot\<close>\<close>

text \<open>
  Modelled from the spec: \<^verbatim>\<open>Integron.type()\<close>, whose module is not part of the sources
  at hand. An integron with an integrase and an attC site is \<^verbatim>\<open>complete\<close>, with attC
  sites and no integrase \<^verbatim>\<open>CALIN\<close>, with an integrase and no attC site \<^verbatim>\<open>In0\<close>. The
  spec names no type for an integron with neither; the examples have none.
\<close>

definition spec_type :: "integron \<Rightarrow> string" where
  "spec_type ig =
     (if integrase ig \<noteq> [] \<and> attC ig \<noteq> [] then ''complete''
      else if attC ig \<noteq> [] then ''CALIN''
      else if integrase ig \<noteq> [] then ''In0''
      else '''')"

definition mk_hit :: "string \<Rightarrow> string \<Rightarrow> string \<Rightarrow> real \<Rightarrow> hit" where
  "mk_hit qname idq idp ev =
     \<lparr>Accession_number = ''-'', query_name = qname, ID_query = idq, ID_prot = idp,
      hit_strand = 1, hit_pos_beg = 1, hit_pos_end = 100, hit_evalue = ev\<rparr>"

text \<open>Three hits, two of them on the same protein.\<close>

definition demo_hits :: "hit list" where
  "demo_hits =
     [mk_hit ''emrE'' ''RF0065'' ''ACBA.007.P01_13_2'' 0.001,
      mk_hit ''AAC3'' ''RF0003'' ''ACBA.007.P01_13_3'' 0.01,
      mk_hit ''qacE'' ''RF0134'' ''ACBA.007.P01_13_2'' 0.00001]"

text \<open>
  An environment: the search cannot be started when the executable is \<^verbatim>\<open>foo\<close>, returns
  1 when the number of CPUs is \<^verbatim>\<open>foo\<close> and 0 otherwise; the hits read back are those of
  \<open>demo_hits\<close> on the proteins of the bank; the sort keeps rows of equal evalue in
  their order.
\<close>

definition demo_env :: env where
  "demo_env =
     \<lparr>itype = spec_type,
      call = (\<lambda>cmd bank.
        if hd cmd = ''foo'' then LaunchError ''[Errno 2] No such file or directory''
        else if cmd ! 4 = ''foo'' then Exit 1 else Exit 0),
      read_hmm = (\<lambda>replicon_name path bank eval_thr coverage.
        filter (\<lambda>h. ID_prot h \<in> prot_id ` set bank \<and> hit_evalue h \<le> eval_thr) demo_hits),
      get_name_from_path = (\<lambda>path. takeWhile (\<lambda>c. c \<noteq> CHR ''.'') path),
      sort_values = sort_key hit_evalue\<rparr>"

definition demo_cfg :: config where
  "demo_cfg = \<lparr>hmmsearch = ''hmmsearch'', cpu = ''1''\<rparr>"

definition mk_feature_row ::
  "int \<Rightarrow> int \<Rightarrow> int \<Rightarrow> string \<Rightarrow> string \<Rightarrow> string \<Rightarrow> feature_row" where
  "mk_feature_row b e s te an mo =
     \<lparr>pos_beg = b, pos_end = e, strand = s, evalue = None, type_elt = te, model = mo,
      distance_2attC = None, annotation = an\<rparr>"

text \<open>A complete integron with one cassette protein, and an In0 with a protein nearby.\<close>

definition complete_integron :: integron where
  "complete_integron =
     \<lparr>ID_replicon = ''ACBA.007.P01_13'',
      integrase = [(''ACBA.007.P01_13_1'',
                    mk_feature_row 55 1014 1 ''protein'' ''intI'' ''intersection_tyr_intI'')],
      attC = [(''attc_001'', mk_feature_row 1200 1260 (- 1) ''attC'' ''attC'' ''attc_4'')],
      promoter = [], attI = [],
      proteins = [(''ACBA.007.P01_13_2'',
                   mk_feature_row 1300 1900 (- 1) ''protein'' ''protein'' ''NA'')]\<rparr>"

definition in0_integron :: integron where
  "in0_integron =
     \<lparr>ID_replicon = ''ACBA.007.P01_13'',
      integrase = [(''ACBA.007.P01_13_9'',
                    mk_feature_row 4000 4900 1 ''protein'' ''intI'' ''intersection_tyr_intI'')],
      attC = [], promoter = [], attI = [],
      proteins = [(''ACBA.007.P01_13_3'',
                   mk_feature_row 5000 5300 1 ''protein'' ''protein'' ''NA'')]\<rparr>"

definition demo_prots :: "prot list" where
  "demo_prots = [\<lparr>prot_id = ''ACBA.007.P01_13_1'', prot_seq = ''MKTATAPLPPLRSVKVLDQ''\<rparr>,
                 \<lparr>prot_id = ''ACBA.007.P01_13_2'', prot_seq = ''MSNAVRLTCEQ''\<rparr>,
                 \<lparr>prot_id = ''ACBA.007.P01_13_3'', prot_seq = ''MTEQQWNF''\<rparr>]"

text \<open>
  An environment whose sort is ascending as well and returns rows of equal evalue in
  the reverse of their order, and two hits of evalue 0 on two proteins.
\<close>

definition tie_env :: env where
  "tie_env = demo_env\<lparr>sort_values := (\<lambda>hs. sort_key hit_evalue (rev hs))\<rparr>"


subsection \<open>Auxiliary notions\<close>

text \<open>The exception that lines 107 to 112 raise on the outcome of a call, if any.\<close>

definition call_error :: "config \<Rightarrow> call_result \<Rightarrow> error option" where
  "call_error cfg r =
     (case r of
        LaunchError m \<Rightarrow> Some (RuntimeError (hmmsearch cfg @ '' failed : '' @ m))
      | Exit rc \<Rightarrow>
          if rc \<noteq> 0
          then Some (RuntimeError (hmmsearch cfg @ '' failed return code = '' @ str_int rc))
          else None)"

text \<open>All the calls of a list returned 0.\<close>

definition calls_ok :: "env \<Rightarrow> config \<Rightarrow> (string list \<times> prot list) list \<Rightarrow> bool" where
  "calls_ok ev cfg cs = list_all (\<lambda>c. call_error cfg (call ev (fst c) (snd c)) = None) cs"

text \<open>
  What a run leaves behind, as to its calls: all but the last returned 0, and either the
  last did too or the exception raised is the one of the last call.
\<close>

definition calls_outcome ::
  "env \<Rightarrow> config \<Rightarrow> (string list \<times> prot list) list \<Rightarrow> error option \<Rightarrow> bool" where
  "calls_outcome ev cfg cs err =
     (list_all (\<lambda>c. hd (fst c) = hmmsearch cfg) cs \<and>
      calls_ok ev cfg (butlast cs) \<and>
      (calls_ok ev cfg cs \<or>
       (cs \<noteq> [] \<and> err \<noteq> None \<and> call_error cfg (call ev (fst (last cs)) (snd (last cs))) = err)))"

section \<open>Properties of \<^verbatim>\<open>add_feature\<close>\<close>

subsection \<open>Auxiliary facts\<close>

lemma length_diff_gt: "length (diff_gt xs t) = length xs"
  by (cases xs) (simp_all add: diff_gt_def)

lemma nth_diff_gt:
  "i < length xs \<Longrightarrow> diff_gt xs t ! i = (0 < i \<and> xs ! i - xs ! (i - 1) > t)"
proof (cases xs)
  case Nil
  assume "i < length xs"
  with Nil show ?thesis by simp
next
  case (Cons x ys)
  assume i: "i < length xs"
  show ?thesis
  proof (cases i)
    case 0
    with Cons show ?thesis by (simp add: diff_gt_def)
  next
    case (Suc j)
    with i Cons have j: "j < length ys" by simp
    then have "j < length (zip xs ys)" using Cons by simp
    with Suc Cons j show ?thesis by (simp add: diff_gt_def nth_Cons')
  qed
qed

lemma first_true_props:
  "True \<in> set bs \<Longrightarrow>
     length (takeWhile (\<lambda>b. \<not> b) bs) < length bs \<and> bs ! length (takeWhile (\<lambda>b. \<not> b) bs)
     \<and> (\<forall>i < length (takeWhile (\<lambda>b. \<not> b) bs). \<not> bs ! i)"
proof (induction bs)
  case Nil
  then show ?case by simp
next
  case (Cons b bs)
  show ?case
  proof (cases b)
    case True
    then show ?thesis by simp
  next
    case False
    with Cons.prems have "True \<in> set bs" by simp
    from Cons.IH [OF this] False show ?thesis
      by (auto simp: nth_Cons')
  qed
qed

lemma first_index_unique:
  fixes p q :: nat
  assumes "bs ! p" "\<forall>i<p. \<not> bs ! i" "bs ! q" "\<forall>i<q. \<not> bs ! i"
  shows "p = q"
proof (rule ccontr)
  assume "p \<noteq> q"
  then consider "p < q" | "q < p" by linarith
  then show False using assms by cases blast+
qed

lemma py_index_0: "xs \<noteq> [] \<Longrightarrow> py_index xs 0 = Inr (hd xs)"
  by (cases xs) (simp_all add: py_index_def)

lemma py_index_last: "xs \<noteq> [] \<Longrightarrow> py_index xs (- 1) = Inr (last xs)"
proof -
  assume ne: "xs \<noteq> []"
  then have "nat (int (length xs) - 1) = length xs - 1" "1 \<le> length xs"
    by (simp_all add: Suc_le_eq)
  with ne show ?thesis by (simp add: py_index_def last_conv_nth)
qed

lemma py_index_nat: "p < length xs \<Longrightarrow> py_index xs (int p) = Inr (xs ! p)"
  by (simp add: py_index_def)

lemma py_index_pred:
  "0 < p \<Longrightarrow> p < length xs \<Longrightarrow> py_index xs (int p - 1) = Inr (xs ! (p - 1))"
proof -
  assume p: "0 < p" "p < length xs"
  then have "nat (int p - 1) = p - 1" by simp
  with p show ?thesis by (simp add: py_index_def)
qed

lemma py_index_empty: "py_index [] i = Inl IndexError"
  by (simp add: py_index_def)

lemma umbrella_no_gap:
  assumes "rows \<noteq> []" "True \<notin> set (diff_gt (map pos_beg rows) thr)"
  shows "umbrella r iid rows thr =
           Inr \<lparr>location = FeatureLocation (pos_beg (hd rows) - 1) (pos_end (last rows)),
                feat_strand = 0, feat_type = ''integron'',
                qualifiers = [(''integron_id'', iid), (''integron_type'', integron_type (hd rows))]\<rparr>"
  using assms
  by (simp add: umbrella_def py_index_0 py_index_last hd_map last_map)

lemma umbrella_gap:
  assumes ne: "rows \<noteq> []" and gap: "True \<in> set (diff_gt (map pos_beg rows) thr)"
  defines "p \<equiv> length (takeWhile (\<lambda>b. \<not> b) (diff_gt (map pos_beg rows) thr))"
  shows "0 < p \<and> p < length rows \<and>
         umbrella r iid rows thr =
           Inr \<lparr>location = CompoundLocation
                             [FeatureLocation (pos_beg (rows ! p) - 1) (int (length (seq r))),
                              FeatureLocation 0 (pos_end (rows ! (p - 1)))],
                feat_strand = 0, feat_type = ''integron'',
                qualifiers = [(''integron_id'', iid), (''integron_type'', integron_type (hd rows))]\<rparr>"
proof -
  let ?d = "diff_gt (map pos_beg rows) thr"
  from first_true_props [OF gap]
  have lt: "p < length ?d" and at: "?d ! p" by (simp_all add: p_def)
  from lt have lt': "p < length rows" by (simp add: length_diff_gt)
  then have "p < length (map pos_beg rows)" by simp
  from nth_diff_gt [OF this, of thr] at have pos: "0 < p" by simp
  have w: "where_first ?d = Inr p" using gap by (simp add: where_first_def p_def)
  have a: "py_index (map pos_beg rows) (int p) = Inr (pos_beg (rows ! p))"
    using lt' by (simp add: py_index_nat)
  have b: "py_index (map pos_end rows) (int p - 1) = Inr (pos_end (rows ! (p - 1)))"
    using lt' pos by (simp add: py_index_pred)
  have c: "py_index (map integron_type rows) 0 = Inr (integron_type (hd rows))"
    using ne by (simp add: py_index_0 hd_map)
  show ?thesis using pos lt' gap
    by (simp add: umbrella_def w a b c)
qed

lemma umbrella_empty: "umbrella r iid [] thr = Inl IndexError"
  by (simp add: umbrella_def py_index_empty)

lemma add_single_as_several:
  "add_single r iid e prots = add_several r iid [e] prots thr"
  by (simp add: add_single_def add_several_def umbrella_def elt_feature_def py_index_def
      diff_gt_def Let_def append_feature_def split: sum.splits)

lemma add_integron_several:
  "add_integron r desc prots thr iid =
     add_several r iid (filter (\<lambda>row. ID_integron row = iid) desc) prots thr"
  by (simp add: add_integron_def add_single_as_several [where thr = thr] split: list.splits)

lemma add_elts_result:
  "add_elts prots r es = (r', err) \<Longrightarrow>
     \<exists>fs. r' = r\<lparr>features := features r @ fs\<rparr> \<and>
          (case err of
             None \<Rightarrow> map (elt_feature prots) es = map Inr fs
           | Some e \<Rightarrow> length fs < length es \<and>
                      map (elt_feature prots) (take (length fs) es) = map Inr fs \<and>
                      elt_feature prots (es ! length fs) = Inl e)"
proof (induction es arbitrary: r)
  case Nil
  then show ?case by auto
next
  case (Cons x es)
  show ?case
  proof (cases "elt_feature prots x")
    case (Inl e)
    with Cons.prems have "r' = r" "err = Some e" by simp_all
    with Inl show ?thesis by (intro exI [of _ "[]"]) simp
  next
    case (Inr f)
    with Cons.prems have "add_elts prots (append_feature r f) es = (r', err)" by simp
    from Cons.IH [OF this] obtain fs where
      r': "r' = (append_feature r f)\<lparr>features := features (append_feature r f) @ fs\<rparr>"
      and c: "(case err of
             None \<Rightarrow> map (elt_feature prots) es = map Inr fs
           | Some e \<Rightarrow> length fs < length es \<and>
                      map (elt_feature prots) (take (length fs) es) = map Inr fs \<and>
                      elt_feature prots (es ! length fs) = Inl e)" by blast
    from r' have "r' = r\<lparr>features := features r @ (f # fs)\<rparr>"
      by (simp add: append_feature_def)
    moreover from c Inr have "(case err of
             None \<Rightarrow> map (elt_feature prots) (x # es) = map Inr (f # fs)
           | Some e \<Rightarrow> length (f # fs) < length (x # es) \<and>
                      map (elt_feature prots) (take (length (f # fs)) (x # es)) = map Inr (f # fs) \<and>
                      elt_feature prots ((x # es) ! length (f # fs)) = Inl e)"
      by (simp split: option.splits)
    ultimately show ?thesis by blast
  qed
qed

lemma umbrella_features: "umbrella (r\<lparr>features := fs\<rparr>) iid rows thr = umbrella r iid rows thr"
  by (simp add: umbrella_def Let_def split: sum.splits)

lemma umbrella_total:
  "rows \<noteq> [] \<Longrightarrow> \<exists>u. umbrella r iid rows thr = Inr u \<and> feat_type u = ''integron'' \<and> feat_strand u = 0
     \<and> qualifiers u = [(''integron_id'', iid), (''integron_type'', integron_type (hd rows))]"
proof (cases "True \<in> set (diff_gt (map pos_beg rows) thr)")
  case True
  assume "rows \<noteq> []"
  from umbrella_gap [OF this True, of r iid] show ?thesis by simp
next
  case False
  assume "rows \<noteq> []"
  from umbrella_no_gap [OF this False, of r iid] show ?thesis by simp
qed

lemma add_integron_result:
  assumes rows: "rows = filter (\<lambda>row. ID_integron row = iid) desc" and ne: "rows \<noteq> []"
    and res: "add_integron r desc prots thr iid = (r', err)"
  shows "\<exists>u fs. umbrella r iid rows thr = Inr u \<and>
           r' = r\<lparr>features := features r @ u # fs\<rparr> \<and>
           (case err of
              None \<Rightarrow> map (elt_feature prots) rows = map Inr fs
            | Some e \<Rightarrow> length fs < length rows \<and>
                      map (elt_feature prots) (take (length fs) rows) = map Inr fs \<and>
                      elt_feature prots (rows ! length fs) = Inl e)"
proof -
  from umbrella_total [OF ne, of r iid thr] obtain u where u: "umbrella r iid rows thr = Inr u"
    by blast
  from res u rows have "add_elts prots (append_feature r u) rows = (r', err)"
    by (simp add: add_integron_several add_several_def)
  from add_elts_result [OF this] obtain fs where
    r': "r' = (append_feature r u)\<lparr>features := features (append_feature r u) @ fs\<rparr>"
    and c: "(case err of
              None \<Rightarrow> map (elt_feature prots) rows = map Inr fs
            | Some e \<Rightarrow> length fs < length rows \<and>
                      map (elt_feature prots) (take (length fs) rows) = map Inr fs \<and>
                      elt_feature prots (rows ! length fs) = Inl e)" by blast
  from r' have "r' = r\<lparr>features := features r @ u # fs\<rparr>" by (simp add: append_feature_def)
  with u c show ?thesis by blast
qed

lemma add_integron_empty:
  "filter (\<lambda>row. ID_integron row = iid) desc = [] \<Longrightarrow>
     add_integron r desc prots thr iid = (r, Some IndexError)"
  by (simp add: add_integron_def add_several_def umbrella_empty)

lemma add_integron_frame:
  assumes "add_integron r desc prots thr iid = (r', err)"
  shows "name r' = name r \<and> seq r' = seq r"
proof (cases "filter (\<lambda>row. ID_integron row = iid) desc = []")
  case True
  with assms show ?thesis by (simp add: add_integron_empty)
next
  case False
  from add_integron_result [OF refl False assms] show ?thesis by auto
qed

lemma add_integrons_frame:
  "add_integrons r desc prots thr ids = (r', err) \<Longrightarrow> name r' = name r \<and> seq r' = seq r"
proof (induction ids arbitrary: r)
  case Nil
  then show ?case by simp
next
  case (Cons iid ids)
  obtain r1 e1 where s: "add_integron r desc prots thr iid = (r1, e1)" by (cases "add_integron r desc prots thr iid")
  from add_integron_frame [OF s] have f: "name r1 = name r \<and> seq r1 = seq r" .
  show ?case
  proof (cases e1)
    case None
    with Cons.prems s have "add_integrons r1 desc prots thr ids = (r', err)" by simp
    from Cons.IH [OF this] f show ?thesis by simp
  next
    case (Some e)
    with Cons.prems s have "r' = r1" by simp
    with f show ?thesis by simp
  qed
qed


subsection \<open>The replicon's name\<close>

text \<open>
  C6 (amended). When \<^verbatim>\<open>add_feature\<close> returns, a name longer than 16 characters has been
  replaced by exactly its last 16 characters and a name of at most 16 characters is
  unchanged. The name \<^verbatim>\<open>gi|00000000|gb|XX123456.2|\<close>, which has 26 characters,
  becomes \<^verbatim>\<open>0|gb|XX123456.2|\<close>, which keeps the suffix \<^verbatim>\<open>gb|XX123456.2|\<close>.
\<close>

theorem add_feature_truncates_name:
  "add_feature r desc prots thr = (r', None) \<Longrightarrow>
     (16 < length (name r) \<longrightarrow>
        name r' = drop (length (name r) - 16) (name r) \<and> length (name r') = 16 \<and>
        name r = take (length (name r) - 16) (name r) @ name r') \<and>
     (length (name r) \<le> 16 \<longrightarrow> name r' = name r) \<and>
     (name r = ''gi|00000000|gb|XX123456.2|'' \<longrightarrow> name r' = ''0|gb|XX123456.2|'')"
proof -
  assume a: "add_feature r desc prots thr = (r', None)"
  obtain r1 e1 where s: "add_integrons r desc prots thr (unique (map ID_integron desc)) = (r1, e1)"
    by (cases "add_integrons r desc prots thr (unique (map ID_integron desc))")
  from add_integrons_frame [OF s] have n: "name r1 = name r" by simp
  from a s have "e1 = None" and "r' = truncate_name r1"
    by (auto simp: add_feature_def split: option.splits)
  then have r': "name r' = (if 16 < length (name r) then drop (length (name r) - 16) (name r) else name r)"
    using n by (simp add: truncate_name_def)
  have "name r = ''gi|00000000|gb|XX123456.2|'' \<longrightarrow> name r' = ''0|gb|XX123456.2|''"
  proof
    assume g: "name r = ''gi|00000000|gb|XX123456.2|''"
    have "length (name r) = 26" by (simp add: g)
    then have "name r' = drop 10 (name r)" using r' by simp
    then show "name r' = ''0|gb|XX123456.2|''" by (simp add: g)
  qed
  then show ?thesis using r' by simp
qed

theorem add_feature_truncates_name_witness:
  "add_feature gi_replicon [] [] 4000 = (gi_replicon\<lparr>name := ''0|gb|XX123456.2|''\<rparr>, None) \<and>
   16 < length (name gi_replicon) \<and>
   name (gi_replicon\<lparr>name := ''0|gb|XX123456.2|''\<rparr>) = ''0|gb|XX123456.2|''"
proof -
  have h: "add_feature gi_replicon [] [] 4000 = (gi_replicon\<lparr>name := ''0|gb|XX123456.2|''\<rparr>, None)"
    by (simp add: add_feature_def truncate_name_def gi_replicon_def)
  have l: "16 < length (name gi_replicon)" by (simp add: gi_replicon_def)
  from add_feature_truncates_name [OF h] l h show ?thesis by (simp add: gi_replicon_def)
qed

text \<open>
  The name of the example has 26 characters, not 27; its last 16 characters are kept.
\<close>

theorem gi_name_length_counterexample:
  "length (name gi_replicon) = 26 \<and> length (name gi_replicon) \<noteq> 27 \<and>
   name (fst (add_feature gi_replicon [] [] 4000)) = ''0|gb|XX123456.2|''"
  by (simp add: add_feature_def truncate_name_def gi_replicon_def)

subsection \<open>The two branches\<close>


subsection \<open>Auxiliary facts on the umbrella\<close>

lemma py_index_0_case:
  "py_index xs 0 = (case xs of [] \<Rightarrow> Inl IndexError | x # _ \<Rightarrow> Inr x)"
  by (cases xs) (simp_all add: py_index_def)

lemma find_filter_case:
  "find P xs = (case filter P xs of [] \<Rightarrow> None | x # _ \<Rightarrow> Some x)"
  by (induction xs) simp_all

lemma translation_of_find:
  "translation_of prots k =
     (case find (\<lambda>prt. prot_id prt = k) prots of
        None \<Rightarrow> Inl IndexError | Some prt \<Rightarrow> Inr (prot_seq prt))"
  by (simp add: translation_of_def py_index_0_case find_filter_case split: list.splits)

lemma elt_feature_type:
  "elt_feature prots e = Inr f \<Longrightarrow> type_elt e \<noteq> ''integron'' \<Longrightarrow> feat_type f \<noteq> ''integron''"
  by (auto simp: elt_feature_def Let_def split: if_splits sum.splits)

lemma elt_features_types:
  "map (elt_feature prots) es = map Inr fs \<Longrightarrow> \<forall>e\<in>set es. type_elt e \<noteq> ''integron'' \<Longrightarrow>
     filter (\<lambda>f. feat_type f = ''integron'') fs = []"
proof (induction es arbitrary: fs)
  case Nil
  then show ?case by simp
next
  case (Cons e es)
  from Cons.prems(1) obtain f fs' where fs: "fs = f # fs'" by (cases fs) auto
  with Cons.prems have "elt_feature prots e = Inr f" "map (elt_feature prots) es = map Inr fs'"
    by simp_all
  with Cons.IH [of fs'] Cons.prems(2) fs elt_feature_type [of prots e f] show ?case by simp
qed

lemma gap_iff:
  "True \<in> set (diff_gt (map pos_beg rows) thr) \<longleftrightarrow>
     (\<exists>i. 0 < i \<and> i < length rows \<and> thr < pos_beg (rows ! i) - pos_beg (rows ! (i - 1)))"
proof
  assume "True \<in> set (diff_gt (map pos_beg rows) thr)"
  then obtain i where i: "i < length (diff_gt (map pos_beg rows) thr)"
    and t: "diff_gt (map pos_beg rows) thr ! i" by (auto simp: in_set_conv_nth)
  from i have i': "i < length (map pos_beg rows)" by (simp add: length_diff_gt)
  from nth_diff_gt [OF i', of thr] t have "0 < i \<and> thr < map pos_beg rows ! i - map pos_beg rows ! (i - 1)"
    by simp
  with i' show "\<exists>i. 0 < i \<and> i < length rows \<and> thr < pos_beg (rows ! i) - pos_beg (rows ! (i - 1))"
    by (intro exI [of _ i]) simp
next
  assume "\<exists>i. 0 < i \<and> i < length rows \<and> thr < pos_beg (rows ! i) - pos_beg (rows ! (i - 1))"
  then obtain i where i: "0 < i" "i < length rows"
    "thr < pos_beg (rows ! i) - pos_beg (rows ! (i - 1))" by blast
  then have i': "i < length (map pos_beg rows)" by simp
  from nth_diff_gt [OF i', of thr] i have "diff_gt (map pos_beg rows) thr ! i" by simp
  moreover from i' have "i < length (diff_gt (map pos_beg rows) thr)" by (simp add: length_diff_gt)
  ultimately show "True \<in> set (diff_gt (map pos_beg rows) thr)"
    by (metis nth_mem)
qed

lemma first_gap:
  assumes p: "0 < p" "p < length rows" "thr < pos_beg (rows ! p) - pos_beg (rows ! (p - 1))"
    and first: "\<forall>i. 0 < i \<and> i < p \<longrightarrow> pos_beg (rows ! i) - pos_beg (rows ! (i - 1)) \<le> thr"
  shows "length (takeWhile (\<lambda>b. \<not> b) (diff_gt (map pos_beg rows) thr)) = p"
proof -
  let ?d = "diff_gt (map pos_beg rows) thr"
  have n: "\<And>i. i < length rows \<Longrightarrow>
     ?d ! i = (0 < i \<and> thr < pos_beg (rows ! i) - pos_beg (rows ! (i - 1)))"
  proof -
    fix i assume i: "i < length rows"
    then have "i < length (map pos_beg rows)" by simp
    from nth_diff_gt [OF this, of thr] i show
      "?d ! i = (0 < i \<and> thr < pos_beg (rows ! i) - pos_beg (rows ! (i - 1)))"
      by (cases i) simp_all
  qed
  have g: "True \<in> set ?d" using p by (auto simp: gap_iff)
  from first_true_props [OF g] have q: "?d ! length (takeWhile (\<lambda>b. \<not> b) ?d)"
    "\<forall>i<length (takeWhile (\<lambda>b. \<not> b) ?d). \<not> ?d ! i" by simp_all
  have a: "?d ! p" using n [OF p(2)] p by simp
  have b: "\<forall>i<p. \<not> ?d ! i"
  proof (intro allI impI)
    fix i assume "i < p"
    with p have "i < length rows" by simp
    from n [OF this] first \<open>i < p\<close> show "\<not> ?d ! i" by auto
  qed
  from first_index_unique [OF q a b] show ?thesis .
qed

subsection \<open>Auxiliary facts on the features of the elements\<close>

lemma elt_feature_protein:
  assumes "type_elt e = ''protein''"
  shows "elt_feature prots e =
     (case find (\<lambda>prt. prot_id prt = element e) prots of
        None \<Rightarrow> Inl IndexError
      | Some prt \<Rightarrow>
          Inr \<lparr>location = FeatureLocation (pos_beg e - 1) (pos_end e),
               feat_strand = strand e,
               feat_type = (if annotation e = ''intI'' then ''integrase'' else ''CDS''),
               qualifiers = [(''protein_id'', element e), (''gene'', annotation e),
                             (''model'', model e), (''translation'', prot_seq prt)]\<rparr>)"
  using assms
  by (simp add: elt_feature_def translation_of_find Let_def split: option.splits)

lemma elt_feature_other:
  assumes "type_elt e \<noteq> ''protein''"
  shows "elt_feature prots e =
     Inr \<lparr>location = FeatureLocation (pos_beg e - 1) (pos_end e),
          feat_strand = strand e,
          feat_type = type_elt e,
          qualifiers = (if type_elt e = ''model'' then [(''model'', model e)]
                        else [(type_elt e, element e), (''model'', model e)])\<rparr>"
  using assms by (simp add: elt_feature_def)

lemma map_eq_map_Inr_nth:
  "map g es = map Inr fs \<Longrightarrow> i < length es \<Longrightarrow> g (es ! i) = Inr (fs ! i)"
proof -
  assume m: "map g es = map Inr fs" and i: "i < length es"
  from m have l: "length fs = length es" by (metis length_map)
  from m have "map g es ! i = map Inr fs ! i" by simp
  with i l show ?thesis by simp
qed

subsection \<open>The order of the features\<close>

lemma set_unique: "set (unique xs) = set xs"
  by (induction xs rule: unique.induct) auto

lemma add_integrons_blocks:
  assumes "add_integrons r desc prots thr ids = (r', None)"
    and "\<forall>iid\<in>set ids. filter (\<lambda>row. ID_integron row = iid) desc \<noteq> []"
  shows "\<exists>blocks. r' = r\<lparr>features := features r @ concat blocks\<rparr> \<and>
     list_all2 (\<lambda>iid block. \<exists>u fs. block = u # fs \<and>
         umbrella r iid (filter (\<lambda>row. ID_integron row = iid) desc) thr = Inr u \<and>
         map (elt_feature prots) (filter (\<lambda>row. ID_integron row = iid) desc) = map Inr fs)
       ids blocks"
  using assms
proof (induction ids arbitrary: r)
  case Nil
  then show ?case by simp
next
  case (Cons iid ids)
  let ?rows = "filter (\<lambda>row. ID_integron row = iid) desc"
  obtain r1 e1 where s: "add_integron r desc prots thr iid = (r1, e1)"
    by (cases "add_integron r desc prots thr iid")
  with Cons.prems(1) have e1: "e1 = None" by (cases e1) simp_all
  with s Cons.prems(1) have rest: "add_integrons r1 desc prots thr ids = (r', None)" by simp
  from Cons.prems(2) have ne: "?rows \<noteq> []" by simp
  from add_integron_result [OF refl ne s [unfolded e1]] obtain u fs where
    u: "umbrella r iid ?rows thr = Inr u" and r1: "r1 = r\<lparr>features := features r @ u # fs\<rparr>"
    and m: "map (elt_feature prots) ?rows = map Inr fs" by auto
  from Cons.prems(2) have "\<forall>iid\<in>set ids. filter (\<lambda>row. ID_integron row = iid) desc \<noteq> []"
    by simp
  from Cons.IH [OF rest this] obtain blocks where
    r': "r' = r1\<lparr>features := features r1 @ concat blocks\<rparr>"
    and a: "list_all2 (\<lambda>iid block. \<exists>u fs. block = u # fs \<and>
         umbrella r1 iid (filter (\<lambda>row. ID_integron row = iid) desc) thr = Inr u \<and>
         map (elt_feature prots) (filter (\<lambda>row. ID_integron row = iid) desc) = map Inr fs)
       ids blocks" by blast
  from a have a': "list_all2 (\<lambda>iid block. \<exists>u fs. block = u # fs \<and>
         umbrella r iid (filter (\<lambda>row. ID_integron row = iid) desc) thr = Inr u \<and>
         map (elt_feature prots) (filter (\<lambda>row. ID_integron row = iid) desc) = map Inr fs)
       ids blocks" unfolding r1 umbrella_features .
  from r' r1 have "r' = r\<lparr>features := features r @ concat ((u # fs) # blocks)\<rparr>" by simp
  moreover from a' u m have "list_all2 (\<lambda>iid block. \<exists>u fs. block = u # fs \<and>
         umbrella r iid (filter (\<lambda>row. ID_integron row = iid) desc) thr = Inr u \<and>
         map (elt_feature prots) (filter (\<lambda>row. ID_integron row = iid) desc) = map Inr fs)
       (iid # ids) ((u # fs) # blocks)" by simp
  ultimately show ?case by blast
qed

lemma unique_rows_nonempty:
  "\<forall>iid\<in>set (unique (map ID_integron desc)). filter (\<lambda>row. ID_integron row = iid) desc \<noteq> []"
  by (auto simp: set_unique filter_empty_conv)

text \<open>
  C4. When \<^verbatim>\<open>add_feature\<close> returns, the features it appended are, for the integron
  identifiers in order of first appearance, one block each: first the umbrella feature
  of the integron, then the feature of each of its rows, in the order of the rows in
  the table.
\<close>

theorem feature_order:
  assumes "add_feature r desc prots thr = (r', None)"
  shows "\<exists>blocks. features r' = features r @ concat blocks \<and>
     length blocks = length (unique (map ID_integron desc)) \<and>
     (\<forall>k<length blocks.
        length (blocks ! k) =
          1 + length (filter (\<lambda>row. ID_integron row = unique (map ID_integron desc) ! k) desc) \<and>
        umbrella r (unique (map ID_integron desc) ! k)
          (filter (\<lambda>row. ID_integron row = unique (map ID_integron desc) ! k) desc) thr =
          Inr (blocks ! k ! 0) \<and>
        (\<forall>i<length (filter (\<lambda>row. ID_integron row = unique (map ID_integron desc) ! k) desc).
           elt_feature prots
             (filter (\<lambda>row. ID_integron row = unique (map ID_integron desc) ! k) desc ! i) =
             Inr (blocks ! k ! (i + 1))))"
proof -
  let ?ids = "unique (map ID_integron desc)"
  obtain r1 e1 where s: "add_integrons r desc prots thr ?ids = (r1, e1)"
    by (cases "add_integrons r desc prots thr ?ids")
  with assms have e1: "e1 = None" and r': "r' = truncate_name r1"
    by (auto simp: add_feature_def split: option.splits)
  from add_integrons_blocks [OF s [unfolded e1] unique_rows_nonempty] obtain blocks where
    r1: "r1 = r\<lparr>features := features r @ concat blocks\<rparr>"
    and a: "list_all2 (\<lambda>iid block. \<exists>u fs. block = u # fs \<and>
         umbrella r iid (filter (\<lambda>row. ID_integron row = iid) desc) thr = Inr u \<and>
         map (elt_feature prots) (filter (\<lambda>row. ID_integron row = iid) desc) = map Inr fs)
       ?ids blocks" by blast
  from r' r1 have f: "features r' = features r @ concat blocks"
    by (simp add: truncate_name_def)
  from a have l: "length blocks = length ?ids" by (simp add: list_all2_lengthD)
  have "length (blocks ! k) = 1 + length (filter (\<lambda>row. ID_integron row = ?ids ! k) desc) \<and>
        umbrella r (?ids ! k) (filter (\<lambda>row. ID_integron row = ?ids ! k) desc) thr =
          Inr (blocks ! k ! 0) \<and>
        (\<forall>i<length (filter (\<lambda>row. ID_integron row = ?ids ! k) desc).
           elt_feature prots (filter (\<lambda>row. ID_integron row = ?ids ! k) desc ! i) =
             Inr (blocks ! k ! (i + 1)))" if k: "k < length blocks" for k
  proof -
    let ?rows = "filter (\<lambda>row. ID_integron row = ?ids ! k) desc"
    from list_all2_nthD2 [OF a k] obtain u fs where b: "blocks ! k = u # fs"
      and u: "umbrella r (?ids ! k) ?rows thr = Inr u"
      and m: "map (elt_feature prots) ?rows = map Inr fs" by blast
    from m have "length fs = length ?rows" by (metis length_map)
    moreover have "\<forall>i<length ?rows. elt_feature prots (?rows ! i) = Inr (fs ! i)"
      using map_eq_map_Inr_nth [OF m] by blast
    ultimately show ?thesis using b u by simp
  qed
  with f l show ?thesis by blast
qed

theorem feature_order_witness:
  "snd (add_feature gi_replicon acba_desc acba_prots 4000) = None \<and>
   map feat_type (features (fst (add_feature gi_replicon acba_desc acba_prots 4000))) =
     [''integron'', ''integrase'', ''attC'', ''CDS'', ''attC'', ''integron'', ''attC''] \<and>
   (\<exists>blocks. features (fst (add_feature gi_replicon acba_desc acba_prots 4000)) =
        features gi_replicon @ concat blocks \<and>
      length blocks = length (unique (map ID_integron acba_desc)) \<and>
      (\<forall>k<length blocks.
        length (blocks ! k) =
          1 + length (filter (\<lambda>row. ID_integron row = unique (map ID_integron acba_desc) ! k)
                        acba_desc) \<and>
        umbrella gi_replicon (unique (map ID_integron acba_desc) ! k)
          (filter (\<lambda>row. ID_integron row = unique (map ID_integron acba_desc) ! k) acba_desc)
          4000 = Inr (blocks ! k ! 0) \<and>
        (\<forall>i<length (filter (\<lambda>row. ID_integron row = unique (map ID_integron acba_desc) ! k)
                      acba_desc).
           elt_feature acba_prots
             (filter (\<lambda>row. ID_integron row = unique (map ID_integron acba_desc) ! k)
                acba_desc ! i) =
             Inr (blocks ! k ! (i + 1)))))"
proof -
  let ?res = "add_feature gi_replicon acba_desc acba_prots 4000"
  have t: "snd ?res = None \<and> map feat_type (features (fst ?res)) =
     [''integron'', ''integrase'', ''attC'', ''CDS'', ''attC'', ''integron'', ''attC'']"
    by (simp add: add_feature_def add_integron_def add_several_def add_single_def umbrella_def
        py_index_def diff_gt_def where_first_def elt_feature_def translation_of_def
        append_feature_def truncate_name_def acba_desc_def mk_row_def acba_prots_def
        gi_replicon_def)
  then have h: "?res = (fst ?res, None)" by (metis prod.collapse)
  from feature_order [OF h] t show ?thesis by blast
qed

subsection \<open>The lookup in the protein file\<close>

lemma elt_feature_error:
  "elt_feature prots e = Inl err \<longleftrightarrow>
     err = IndexError \<and> type_elt e = ''protein'' \<and> \<not> (\<exists>prt\<in>set prots. prot_id prt = element e)"
proof (cases "type_elt e = ''protein''")
  case True
  show ?thesis
  proof (cases "find (\<lambda>prt. prot_id prt = element e) prots")
    case None
    then have "\<not> (\<exists>prt\<in>set prots. prot_id prt = element e)"
      by (auto simp: find_None_iff)
    with True None show ?thesis by (auto simp: elt_feature_protein)
  next
    case (Some prt)
    then have "\<exists>prt\<in>set prots. prot_id prt = element e"
      by (auto simp: find_Some_iff)
    with True Some show ?thesis by (simp add: elt_feature_protein)
  qed
next
  case False
  then show ?thesis by (simp add: elt_feature_other)
qed

lemma add_elts_error:
  "snd (add_elts prots r es) =
     (if \<forall>e\<in>set es. type_elt e = ''protein'' \<longrightarrow> (\<exists>prt\<in>set prots. prot_id prt = element e)
      then None else Some IndexError)"
proof (induction es arbitrary: r)
  case Nil
  show ?case by simp
next
  case (Cons e es)
  show ?case
  proof (cases "elt_feature prots e")
    case (Inl err)
    then show ?thesis using elt_feature_error [of prots e err] by auto
  next
    case (Inr f)
    have "\<not> (type_elt e = ''protein'' \<and> \<not> (\<exists>prt\<in>set prots. prot_id prt = element e))"
      using elt_feature_error [of prots e IndexError] Inr by auto
    with Inr Cons.IH [of "append_feature r f"] show ?thesis by auto
  qed
qed

lemma add_integron_error:
  assumes "filter (\<lambda>row. ID_integron row = iid) desc \<noteq> []"
  shows "snd (add_integron r desc prots thr iid) =
     (if \<forall>e\<in>set (filter (\<lambda>row. ID_integron row = iid) desc).
           type_elt e = ''protein'' \<longrightarrow> (\<exists>prt\<in>set prots. prot_id prt = element e)
      then None else Some IndexError)"
proof -
  from umbrella_total [OF assms, of r iid thr] obtain u where
    "umbrella r iid (filter (\<lambda>row. ID_integron row = iid) desc) thr = Inr u" by blast
  then show ?thesis
    by (simp only: add_integron_several add_several_def sum.case add_elts_error)
qed

lemma add_integrons_error:
  assumes "\<forall>iid\<in>set ids. filter (\<lambda>row. ID_integron row = iid) desc \<noteq> []"
  shows "snd (add_integrons r desc prots thr ids) =
     (if \<forall>iid\<in>set ids. \<forall>e\<in>set (filter (\<lambda>row. ID_integron row = iid) desc).
           type_elt e = ''protein'' \<longrightarrow> (\<exists>prt\<in>set prots. prot_id prt = element e)
      then None else Some IndexError)"
  using assms
proof (induction ids arbitrary: r)
  case Nil
  show ?case by simp
next
  case (Cons iid ids)
  obtain r1 e1 where s: "add_integron r desc prots thr iid = (r1, e1)"
    by (cases "add_integron r desc prots thr iid")
  from Cons.prems have ne: "filter (\<lambda>row. ID_integron row = iid) desc \<noteq> []" by simp
  from add_integron_error [OF ne, of r prots thr] s have e1: "e1 =
     (if \<forall>e\<in>set (filter (\<lambda>row. ID_integron row = iid) desc).
           type_elt e = ''protein'' \<longrightarrow> (\<exists>prt\<in>set prots. prot_id prt = element e)
      then None else Some IndexError)" by simp
  from Cons.prems have "\<forall>iid\<in>set ids. filter (\<lambda>row. ID_integron row = iid) desc \<noteq> []"
    by simp
  note ih = Cons.IH [OF this, of r1]
  show ?case
  proof (cases e1)
    case None
    with s have "snd (add_integrons r desc prots thr (iid # ids)) =
                 snd (add_integrons r1 desc prots thr ids)" by simp
    with ih e1 None show ?thesis by (simp split: if_splits)
  next
    case (Some e)
    with s have "snd (add_integrons r desc prots thr (iid # ids)) = Some e" by simp
    with e1 Some show ?thesis by (auto split: if_splits)
  qed
qed

text \<open>
  C5 (amended). \<^verbatim>\<open>add_feature\<close> raises, with the \<^verbatim>\<open>IndexError\<close> of taking the first
  element of an empty list of matches, exactly when the table has a row of type
  \<^verbatim>\<open>protein\<close> whose identifier no record of the protein file carries. A row whose
  identifier several records carry does not make it fail: the first of them is taken.
\<close>

theorem lookup_failure:
  "snd (add_feature r desc prots thr) =
     (if \<forall>e\<in>set desc. type_elt e = ''protein'' \<longrightarrow> (\<exists>prt\<in>set prots. prot_id prt = element e)
      then None else Some IndexError)"
proof -
  let ?ids = "unique (map ID_integron desc)"
  have "snd (add_feature r desc prots thr) = snd (add_integrons r desc prots thr ?ids)"
    by (cases "add_integrons r desc prots thr ?ids")
       (auto simp: add_feature_def split: option.splits)
  also have "\<dots> = (if \<forall>iid\<in>set ?ids. \<forall>e\<in>set (filter (\<lambda>row. ID_integron row = iid) desc).
           type_elt e = ''protein'' \<longrightarrow> (\<exists>prt\<in>set prots. prot_id prt = element e)
      then None else Some IndexError)"
    by (rule add_integrons_error [OF unique_rows_nonempty])
  also have "(\<forall>iid\<in>set ?ids. \<forall>e\<in>set (filter (\<lambda>row. ID_integron row = iid) desc).
           type_elt e = ''protein'' \<longrightarrow> (\<exists>prt\<in>set prots. prot_id prt = element e)) \<longleftrightarrow>
     (\<forall>e\<in>set desc. type_elt e = ''protein'' \<longrightarrow> (\<exists>prt\<in>set prots. prot_id prt = element e))"
    by (auto simp: set_unique)
  finally show ?thesis .
qed

theorem lookup_failure_witness:
  "type_elt (nested_desc ! 0) = ''protein'' \<and>
   \<not> (\<exists>prt\<in>set []. prot_id prt = element (nested_desc ! 0)) \<and>
   snd (add_feature gi_replicon nested_desc [] 4000) = Some IndexError \<and>
   snd (add_feature gi_replicon nested_desc dup_prots 4000) = None"
proof -
  have a: "\<not> (\<forall>e\<in>set nested_desc. type_elt e = ''protein'' \<longrightarrow>
              (\<exists>prt\<in>set []. prot_id prt = element e))"
    by (simp add: nested_desc_def mk_row_def)
  have b: "\<forall>e\<in>set nested_desc. type_elt e = ''protein'' \<longrightarrow>
              (\<exists>prt\<in>set dup_prots. prot_id prt = element e)"
    by (simp add: nested_desc_def mk_row_def dup_prots_def)
  have c: "type_elt (nested_desc ! 0) = ''protein''" by (simp add: nested_desc_def mk_row_def)
  from lookup_failure [of gi_replicon nested_desc "[]" 4000] a
  have 1: "snd (add_feature gi_replicon nested_desc [] 4000) = Some IndexError" by simp
  from lookup_failure [of gi_replicon nested_desc dup_prots 4000] b
  have 2: "snd (add_feature gi_replicon nested_desc dup_prots 4000) = None" by simp
  from 1 2 c show ?thesis by simp
qed

text \<open>
  Two records of \<open>dup_prots\<close> carry the identifier of the integrase of \<open>nested_desc\<close>.
  \<^verbatim>\<open>add_feature\<close> returns without an error, with the sequence of the first record as
  translation.
\<close>

theorem ambiguous_lookup_counterexample:
  "type_elt (nested_desc ! 0) = ''protein'' \<and>
   length (filter (\<lambda>prt. prot_id prt = element (nested_desc ! 0)) dup_prots) = 2 \<and>
   snd (add_feature gi_replicon nested_desc dup_prots 4000) = None \<and>
   map_of (qualifiers (features (fst (add_feature gi_replicon nested_desc dup_prots 4000)) ! 1))
     ''translation'' = Some ''MKTATAPLPPLRSVKVLDQ''"
  by (simp add: add_feature_def add_integron_def add_several_def umbrella_def py_index_def
      diff_gt_def where_first_def elt_feature_def translation_of_def append_feature_def
      truncate_name_def nested_desc_def mk_row_def dup_prots_def gi_replicon_def)

subsection \<open>The blocks of features, whatever the outcome\<close>

lemma umbrella_props:
  assumes ne: "rows \<noteq> []" and u: "umbrella r iid rows thr = Inr u"
  shows "feat_type u = ''integron'' \<and> feat_strand u = 0 \<and>
     qualifiers u = [(''integron_id'', iid), (''integron_type'', integron_type (hd rows))] \<and>
     ((\<forall>i. 0 < i \<and> i < length rows \<longrightarrow> pos_beg (rows ! i) - pos_beg (rows ! (i - 1)) \<le> thr) \<longrightarrow>
        location u = FeatureLocation (pos_beg (hd rows) - 1) (pos_end (last rows)) \<and>
        ((\<forall>row\<in>set rows. pos_beg (hd rows) \<le> pos_beg row \<and> pos_end row \<le> pos_end (last rows)) \<longrightarrow>
           location u = FeatureLocation (Min (pos_beg ` set rows) - 1) (Max (pos_end ` set rows)))) \<and>
     (\<forall>p. 0 < p \<and> p < length rows \<and> thr < pos_beg (rows ! p) - pos_beg (rows ! (p - 1)) \<and>
          (\<forall>i. 0 < i \<and> i < p \<longrightarrow> pos_beg (rows ! i) - pos_beg (rows ! (i - 1)) \<le> thr) \<longrightarrow>
        location u =
          CompoundLocation [FeatureLocation (pos_beg (rows ! p) - 1) (int (length (seq r))),
                            FeatureLocation 0 (pos_end (rows ! (p - 1)))])"
proof -
  from umbrella_total [OF ne, of r iid thr] u have
    a3: "feat_type u = ''integron''" and a4: "feat_strand u = 0"
    and a5: "qualifiers u = [(''integron_id'', iid), (''integron_type'', integron_type (hd rows))]"
    by simp_all
  have a6: "location u = FeatureLocation (pos_beg (hd rows) - 1) (pos_end (last rows))"
    if "\<forall>i. 0 < i \<and> i < length rows \<longrightarrow> pos_beg (rows ! i) - pos_beg (rows ! (i - 1)) \<le> thr"
  proof -
    from that have "True \<notin> set (diff_gt (map pos_beg rows) thr)"
      by (auto simp: gap_iff simp del: One_nat_def)
    from umbrella_no_gap [OF ne this, of r iid] u show ?thesis by simp
  qed
  have a7: "FeatureLocation (pos_beg (hd rows) - 1) (pos_end (last rows)) =
            FeatureLocation (Min (pos_beg ` set rows) - 1) (Max (pos_end ` set rows))"
    if "\<forall>row\<in>set rows. pos_beg (hd rows) \<le> pos_beg row \<and> pos_end row \<le> pos_end (last rows)"
  proof -
    from ne have "hd rows \<in> set rows" "last rows \<in> set rows" by simp_all
    with that have "Min (pos_beg ` set rows) = pos_beg (hd rows)"
      "Max (pos_end ` set rows) = pos_end (last rows)"
      by (auto intro!: Min_eqI Max_eqI)
    then show ?thesis by simp
  qed
  have a8: "location u =
          CompoundLocation [FeatureLocation (pos_beg (rows ! p) - 1) (int (length (seq r))),
                            FeatureLocation 0 (pos_end (rows ! (p - 1)))]"
    if p: "0 < p \<and> p < length rows \<and> thr < pos_beg (rows ! p) - pos_beg (rows ! (p - 1)) \<and>
          (\<forall>i. 0 < i \<and> i < p \<longrightarrow> pos_beg (rows ! i) - pos_beg (rows ! (i - 1)) \<le> thr)" for p
  proof -
    from p have g: "True \<in> set (diff_gt (map pos_beg rows) thr)"
      unfolding gap_iff by blast
    from p have "length (takeWhile (\<lambda>b. \<not> b) (diff_gt (map pos_beg rows) thr)) = p"
      by (intro first_gap) simp_all
    with umbrella_gap [OF ne g, of r iid] u show ?thesis by simp
  qed
  from a3 a4 a5 a6 a7 a8 show ?thesis by presburger
qed

lemma add_integrons_blocks_any:
  assumes "add_integrons r desc prots thr ids = (r', err)"
    and "\<forall>iid\<in>set ids. filter (\<lambda>row. ID_integron row = iid) desc \<noteq> []"
  shows "\<exists>blocks. r' = r\<lparr>features := features r @ concat blocks\<rparr> \<and>
     length blocks \<le> length ids \<and> (err = None \<longrightarrow> length blocks = length ids) \<and>
     (ids \<noteq> [] \<longrightarrow> blocks \<noteq> []) \<and>
     list_all2 (\<lambda>iid block. \<exists>u fs n. block = u # fs \<and>
         umbrella r iid (filter (\<lambda>row. ID_integron row = iid) desc) thr = Inr u \<and>
         n \<le> length (filter (\<lambda>row. ID_integron row = iid) desc) \<and>
         (err = None \<longrightarrow> n = length (filter (\<lambda>row. ID_integron row = iid) desc)) \<and>
         map (elt_feature prots) (take n (filter (\<lambda>row. ID_integron row = iid) desc)) =
           map Inr fs)
       (take (length blocks) ids) blocks"
  using assms
proof (induction ids arbitrary: r)
  case Nil
  then show ?case by simp
next
  case (Cons iid ids)
  let ?rows = "filter (\<lambda>row. ID_integron row = iid) desc"
  let ?Q = "\<lambda>r iid block. \<exists>u fs n. block = u # fs \<and>
         umbrella r iid (filter (\<lambda>row. ID_integron row = iid) desc) thr = Inr u \<and>
         n \<le> length (filter (\<lambda>row. ID_integron row = iid) desc) \<and>
         (err = None \<longrightarrow> n = length (filter (\<lambda>row. ID_integron row = iid) desc)) \<and>
         map (elt_feature prots) (take n (filter (\<lambda>row. ID_integron row = iid) desc)) =
           map Inr fs"
  obtain r1 e1 where s: "add_integron r desc prots thr iid = (r1, e1)"
    by (cases "add_integron r desc prots thr iid")
  from Cons.prems(2) have ne: "?rows \<noteq> []" by simp
  from add_integron_result [OF refl ne s] obtain u fs where
    u: "umbrella r iid ?rows thr = Inr u" and r1: "r1 = r\<lparr>features := features r @ u # fs\<rparr>"
    and c: "(case e1 of
              None \<Rightarrow> map (elt_feature prots) ?rows = map Inr fs
            | Some e \<Rightarrow> length fs < length ?rows \<and>
                      map (elt_feature prots) (take (length fs) ?rows) = map Inr fs \<and>
                      elt_feature prots (?rows ! length fs) = Inl e)" by blast
  show ?case
  proof (cases e1)
    case (Some e)
    with s Cons.prems(1) have e: "r' = r1" "err = Some e" by simp_all
    from c Some have "length fs \<le> length ?rows"
      "map (elt_feature prots) (take (length fs) ?rows) = map Inr fs" by simp_all
    with u e have q: "?Q r iid (u # fs)" by blast
    from e r1 have "r' = r\<lparr>features := features r @ concat [u # fs]\<rparr>" by simp
    moreover from q have "list_all2 (?Q r) (take (length [u # fs]) (iid # ids)) [u # fs]" by simp
    moreover have "length [u # fs] \<le> length (iid # ids)" by simp
    moreover from e have "err = None \<longrightarrow> length [u # fs] = length (iid # ids)" by simp
    moreover have "iid # ids \<noteq> [] \<longrightarrow> [u # fs] \<noteq> []" by simp
    ultimately show ?thesis by blast
  next
    case None
    with s Cons.prems(1) have rest: "add_integrons r1 desc prots thr ids = (r', err)" by simp
    from Cons.prems(2) have "\<forall>iid\<in>set ids. filter (\<lambda>row. ID_integron row = iid) desc \<noteq> []"
      by simp
    from Cons.IH [OF rest this] obtain blocks where
      r': "r' = r1\<lparr>features := features r1 @ concat blocks\<rparr>"
      and le: "length blocks \<le> length ids" and eq: "err = None \<longrightarrow> length blocks = length ids"
      and a: "list_all2 (?Q r1) (take (length blocks) ids) blocks" by blast
    from a have a': "list_all2 (?Q r) (take (length blocks) ids) blocks"
      unfolding r1 umbrella_features .
    from c None have m: "map (elt_feature prots) ?rows = map Inr fs" by simp
    then have "map (elt_feature prots) (take (length ?rows) ?rows) = map Inr fs" by simp
    with u have q: "?Q r iid (u # fs)" by blast
    from r' r1 have "r' = r\<lparr>features := features r @ concat ((u # fs) # blocks)\<rparr>" by simp
    moreover from q a' have
      "list_all2 (?Q r) (take (length ((u # fs) # blocks)) (iid # ids)) ((u # fs) # blocks)"
      by simp
    moreover from le have "length ((u # fs) # blocks) \<le> length (iid # ids)" by simp
    moreover from eq have "err = None \<longrightarrow> length ((u # fs) # blocks) = length (iid # ids)"
      by simp
    moreover have "iid # ids \<noteq> [] \<longrightarrow> (u # fs) # blocks \<noteq> []" by simp
    ultimately show ?thesis by blast
  qed
qed

lemma add_feature_blocks:
  assumes "add_feature r desc prots thr = (r', err)"
  shows "\<exists>blocks. features r' = features r @ concat blocks \<and>
     length blocks \<le> length (unique (map ID_integron desc)) \<and>
     (err = None \<longrightarrow> length blocks = length (unique (map ID_integron desc))) \<and>
     (desc \<noteq> [] \<longrightarrow> blocks \<noteq> []) \<and>
     (\<forall>k<length blocks. \<exists>u fs n.
         blocks ! k = u # fs \<and>
         filter (\<lambda>row. ID_integron row = unique (map ID_integron desc) ! k) desc \<noteq> [] \<and>
         umbrella r (unique (map ID_integron desc) ! k)
           (filter (\<lambda>row. ID_integron row = unique (map ID_integron desc) ! k) desc) thr = Inr u \<and>
         n \<le> length (filter (\<lambda>row. ID_integron row = unique (map ID_integron desc) ! k) desc) \<and>
         (err = None \<longrightarrow>
            n = length (filter (\<lambda>row. ID_integron row = unique (map ID_integron desc) ! k) desc)) \<and>
         map (elt_feature prots)
           (take n (filter (\<lambda>row. ID_integron row = unique (map ID_integron desc) ! k) desc)) =
           map Inr fs)"
proof -
  let ?ids = "unique (map ID_integron desc)"
  obtain r1 e1 where s: "add_integrons r desc prots thr ?ids = (r1, e1)"
    by (cases "add_integrons r desc prots thr ?ids")
  with assms have e1: "e1 = err" and f: "features r' = features r1"
    by (auto simp: add_feature_def truncate_name_def split: option.splits)
  from add_integrons_blocks_any [OF s [unfolded e1] unique_rows_nonempty] obtain blocks where
    r1: "r1 = r\<lparr>features := features r @ concat blocks\<rparr>"
    and le: "length blocks \<le> length ?ids" and eq: "err = None \<longrightarrow> length blocks = length ?ids"
    and nb: "?ids \<noteq> [] \<longrightarrow> blocks \<noteq> []"
    and a: "list_all2 (\<lambda>iid block. \<exists>u fs n. block = u # fs \<and>
         umbrella r iid (filter (\<lambda>row. ID_integron row = iid) desc) thr = Inr u \<and>
         n \<le> length (filter (\<lambda>row. ID_integron row = iid) desc) \<and>
         (err = None \<longrightarrow> n = length (filter (\<lambda>row. ID_integron row = iid) desc)) \<and>
         map (elt_feature prots) (take n (filter (\<lambda>row. ID_integron row = iid) desc)) =
           map Inr fs)
       (take (length blocks) ?ids) blocks" by blast
  have "?ids \<noteq> []" if "desc \<noteq> []"
  proof -
    from that have "set (map ID_integron desc) \<noteq> {}" by simp
    then have "set ?ids \<noteq> {}" unfolding set_unique .
    then show ?thesis by auto
  qed
  with nb have nb': "desc \<noteq> [] \<longrightarrow> blocks \<noteq> []" by blast
  have "\<exists>u fs n.
         blocks ! k = u # fs \<and>
         filter (\<lambda>row. ID_integron row = ?ids ! k) desc \<noteq> [] \<and>
         umbrella r (?ids ! k) (filter (\<lambda>row. ID_integron row = ?ids ! k) desc) thr = Inr u \<and>
         n \<le> length (filter (\<lambda>row. ID_integron row = ?ids ! k) desc) \<and>
         (err = None \<longrightarrow> n = length (filter (\<lambda>row. ID_integron row = ?ids ! k) desc)) \<and>
         map (elt_feature prots) (take n (filter (\<lambda>row. ID_integron row = ?ids ! k) desc)) =
           map Inr fs" if k: "k < length blocks" for k
  proof -
    from k le have ki: "k < length ?ids" by simp
    then have "?ids ! k \<in> set ?ids" by (rule nth_mem)
    with unique_rows_nonempty [of desc]
    have ne: "filter (\<lambda>row. ID_integron row = ?ids ! k) desc \<noteq> []" by blast
    from k have "take (length blocks) ?ids ! k = ?ids ! k" by simp
    with list_all2_nthD2 [OF a k] ne show ?thesis by simp
  qed
  with f r1 le eq nb' show ?thesis by auto
qed

lemma concat_nth_first:
  "blocks \<noteq> [] \<Longrightarrow> i < length (blocks ! 0) \<Longrightarrow> concat blocks ! i = blocks ! 0 ! i"
  by (cases blocks) (simp_all add: nth_append)

lemma concat_nth_second:
  "1 < length blocks \<Longrightarrow> i < length (blocks ! 1) \<Longrightarrow>
     concat blocks ! (length (blocks ! 0) + i) = blocks ! 1 ! i"
proof -
  assume l: "1 < length blocks" and i: "i < length (blocks ! 1)"
  from l obtain b0 b1 rest where b: "blocks = b0 # b1 # rest"
    by (cases blocks; cases "tl blocks") auto
  with i show ?thesis by (simp add: nth_append)
qed

subsection \<open>The umbrella feature\<close>

text \<open>
  C1 (amended). The features that \<^verbatim>\<open>add_feature\<close> appends, whether it returns or
  raises, are one block for each integron whose turn has begun, in the order of the
  identifiers; when it returns, every integron has its block, and a table that is not
  empty gives at least one. Each block begins with exactly one umbrella feature: type
  \<^verbatim>\<open>integron\<close>, strand 0, qualifiers \<^verbatim>\<open>integron_id\<close> and \<^verbatim>\<open>integron_type\<close>. What
  follows it in the block are the features of the rows of the integron, in the order
  of the rows: of all of them when \<^verbatim>\<open>add_feature\<close> returns, of the rows before the
  failing one when it raises. So the umbrella is the only feature of type
  \<^verbatim>\<open>integron\<close> of the block when no row of the integron has the \<^verbatim>\<open>type_elt\<close>
  \<^verbatim>\<open>integron\<close>. When no gap between the \<^verbatim>\<open>pos_beg\<close> of consecutive rows exceeds the
  threshold, its location runs from the first row's \<^verbatim>\<open>pos_beg - 1\<close> to the last row's
  \<^verbatim>\<open>pos_end\<close>; that is the span from the least \<^verbatim>\<open>pos_beg\<close> to the greatest \<^verbatim>\<open>pos_end\<close>
  when the first row begins first and the last row ends last. When some gap exceeds
  the threshold, the umbrella is one feature whose location joins the part from
  \<^verbatim>\<open>pos_beg - 1\<close> of the row at the first such gap to the length of the replicon and
  the part from 0 to \<^verbatim>\<open>pos_end\<close> of the row before the gap.
\<close>

theorem umbrella_feature:
  assumes "add_feature r desc prots thr = (r', err)"
  shows "\<exists>blocks. features r' = features r @ concat blocks \<and>
     length blocks \<le> length (unique (map ID_integron desc)) \<and>
     (err = None \<longrightarrow> length blocks = length (unique (map ID_integron desc))) \<and>
     (desc \<noteq> [] \<longrightarrow> blocks \<noteq> []) \<and>
     (\<forall>k<length blocks.
        (let iid = unique (map ID_integron desc) ! k;
             rows = filter (\<lambda>row. ID_integron row = iid) desc;
             u = blocks ! k ! 0
         in rows \<noteq> [] \<and> blocks ! k \<noteq> [] \<and>
            feat_type u = ''integron'' \<and> feat_strand u = 0 \<and>
            qualifiers u = [(''integron_id'', iid), (''integron_type'', integron_type (hd rows))] \<and>
            ((\<forall>i. 0 < i \<and> i < length rows \<longrightarrow>
                  pos_beg (rows ! i) - pos_beg (rows ! (i - 1)) \<le> thr) \<longrightarrow>
               location u = FeatureLocation (pos_beg (hd rows) - 1) (pos_end (last rows)) \<and>
               ((\<forall>row\<in>set rows. pos_beg (hd rows) \<le> pos_beg row \<and>
                                  pos_end row \<le> pos_end (last rows)) \<longrightarrow>
                  location u =
                    FeatureLocation (Min (pos_beg ` set rows) - 1) (Max (pos_end ` set rows)))) \<and>
            (\<forall>p. 0 < p \<and> p < length rows \<and>
                 thr < pos_beg (rows ! p) - pos_beg (rows ! (p - 1)) \<and>
                 (\<forall>i. 0 < i \<and> i < p \<longrightarrow>
                    pos_beg (rows ! i) - pos_beg (rows ! (i - 1)) \<le> thr) \<longrightarrow>
               location u =
                 CompoundLocation
                   [FeatureLocation (pos_beg (rows ! p) - 1) (int (length (seq r))),
                    FeatureLocation 0 (pos_end (rows ! (p - 1)))]) \<and>
            (\<exists>n\<le>length rows. (err = None \<longrightarrow> n = length rows) \<and>
               map (elt_feature prots) (take n rows) = map Inr (tl (blocks ! k))) \<and>
            ((\<forall>row\<in>set rows. type_elt row \<noteq> ''integron'') \<longrightarrow>
               length (filter (\<lambda>f. feat_type f = ''integron'') (blocks ! k)) = 1)))"
proof -
  let ?ids = "unique (map ID_integron desc)"
  from add_feature_blocks [OF assms] obtain blocks where
    f: "features r' = features r @ concat blocks"
    and le: "length blocks \<le> length ?ids"
    and eq: "err = None \<longrightarrow> length blocks = length ?ids"
    and nb: "desc \<noteq> [] \<longrightarrow> blocks \<noteq> []"
    and b: "\<forall>k<length blocks. \<exists>u fs n.
         blocks ! k = u # fs \<and>
         filter (\<lambda>row. ID_integron row = ?ids ! k) desc \<noteq> [] \<and>
         umbrella r (?ids ! k) (filter (\<lambda>row. ID_integron row = ?ids ! k) desc) thr = Inr u \<and>
         n \<le> length (filter (\<lambda>row. ID_integron row = ?ids ! k) desc) \<and>
         (err = None \<longrightarrow> n = length (filter (\<lambda>row. ID_integron row = ?ids ! k) desc)) \<and>
         map (elt_feature prots) (take n (filter (\<lambda>row. ID_integron row = ?ids ! k) desc)) =
           map Inr fs" by blast
  have "(let iid = ?ids ! k;
             rows = filter (\<lambda>row. ID_integron row = iid) desc;
             u = blocks ! k ! 0
         in rows \<noteq> [] \<and> blocks ! k \<noteq> [] \<and>
            feat_type u = ''integron'' \<and> feat_strand u = 0 \<and>
            qualifiers u = [(''integron_id'', iid), (''integron_type'', integron_type (hd rows))] \<and>
            ((\<forall>i. 0 < i \<and> i < length rows \<longrightarrow>
                  pos_beg (rows ! i) - pos_beg (rows ! (i - 1)) \<le> thr) \<longrightarrow>
               location u = FeatureLocation (pos_beg (hd rows) - 1) (pos_end (last rows)) \<and>
               ((\<forall>row\<in>set rows. pos_beg (hd rows) \<le> pos_beg row \<and>
                                  pos_end row \<le> pos_end (last rows)) \<longrightarrow>
                  location u =
                    FeatureLocation (Min (pos_beg ` set rows) - 1) (Max (pos_end ` set rows)))) \<and>
            (\<forall>p. 0 < p \<and> p < length rows \<and>
                 thr < pos_beg (rows ! p) - pos_beg (rows ! (p - 1)) \<and>
                 (\<forall>i. 0 < i \<and> i < p \<longrightarrow>
                    pos_beg (rows ! i) - pos_beg (rows ! (i - 1)) \<le> thr) \<longrightarrow>
               location u =
                 CompoundLocation
                   [FeatureLocation (pos_beg (rows ! p) - 1) (int (length (seq r))),
                    FeatureLocation 0 (pos_end (rows ! (p - 1)))]) \<and>
            (\<exists>n\<le>length rows. (err = None \<longrightarrow> n = length rows) \<and>
               map (elt_feature prots) (take n rows) = map Inr (tl (blocks ! k))) \<and>
            ((\<forall>row\<in>set rows. type_elt row \<noteq> ''integron'') \<longrightarrow>
               length (filter (\<lambda>f. feat_type f = ''integron'') (blocks ! k)) = 1))"
    if k: "k < length blocks" for k
  proof -
    let ?rows = "filter (\<lambda>row. ID_integron row = ?ids ! k) desc"
    from b k obtain u fs n where bk: "blocks ! k = u # fs" and ne: "?rows \<noteq> []"
      and u: "umbrella r (?ids ! k) ?rows thr = Inr u" and n: "n \<le> length ?rows"
      and nn: "err = None \<longrightarrow> n = length ?rows"
      and m: "map (elt_feature prots) (take n ?rows) = map Inr fs" by blast
    note p = umbrella_props [OF ne u]
    from n nn m have e: "\<exists>n\<le>length ?rows. (err = None \<longrightarrow> n = length ?rows) \<and>
               map (elt_feature prots) (take n ?rows) = map Inr (tl (u # fs))" by auto
    have c: "length (filter (\<lambda>f. feat_type f = ''integron'') (u # fs)) = 1"
      if t: "\<forall>row\<in>set ?rows. type_elt row \<noteq> ''integron''"
    proof -
      from t have "\<forall>e\<in>set (take n ?rows). type_elt e \<noteq> ''integron''"
        by (meson in_set_takeD)
      from elt_features_types [OF m this] p show ?thesis by simp
    qed
    have u0: "(u # fs) ! 0 = u" by simp
    from ne p e c show ?thesis unfolding Let_def bk u0 by blast
  qed
  with f le eq nb show ?thesis by blast
qed

theorem umbrella_feature_witness:
  "location (features (fst (add_feature gi_replicon wrap_desc [] 4000)) ! 0) =
     CompoundLocation [FeatureLocation 5899 6000, FeatureLocation 0 70] \<and>
   map feat_type (features (fst (add_feature gi_replicon wrap_desc [] 4000))) =
     [''integron'', ''attC'', ''attC''] \<and>
   location (features (fst (add_feature gi_replicon in0_desc acba_prots 4000)) ! 0) =
     FeatureLocation 54 1014 \<and>
   map feat_type (features (fst (add_feature gi_replicon in0_desc acba_prots 4000))) =
     [''integron'', ''integrase'']"
proof -
  let ?w = "add_feature gi_replicon wrap_desc [] 4000"
  let ?s = "add_feature gi_replicon in0_desc acba_prots 4000"
  have n: "features gi_replicon = []" "int (length (seq gi_replicon)) = 6000"
    by (simp_all add: gi_replicon_def)
  have 1: "location (features (fst ?w) ! 0) =
     CompoundLocation [FeatureLocation 5899 6000, FeatureLocation 0 70]"
  proof -
    have h: "?w = (fst ?w, snd ?w)" by simp
    have ids: "unique (map ID_integron wrap_desc) ! 0 = ''integron_01''"
      by (simp add: wrap_desc_def mk_row_def)
    have rows: "filter (\<lambda>row. ID_integron row = ''integron_01'') wrap_desc = wrap_desc"
      by (simp add: wrap_desc_def mk_row_def)
    have ne: "wrap_desc \<noteq> []" by (simp add: wrap_desc_def)
    have g: "4000 < pos_beg (wrap_desc ! 1) - pos_beg (wrap_desc ! (1 - 1))"
      "pos_beg (wrap_desc ! 1) = 5900" "pos_end (wrap_desc ! (1 - 1)) = 70"
      "length wrap_desc = 2"
      by (simp_all add: wrap_desc_def mk_row_def)
    from umbrella_feature [OF h] ne obtain blocks where
      f: "features (fst ?w) = features gi_replicon @ concat blocks" and nb: "blocks \<noteq> []"
      and a: "\<forall>k<length blocks.
        (let iid = unique (map ID_integron wrap_desc) ! k;
             rows = filter (\<lambda>row. ID_integron row = iid) wrap_desc;
             u = blocks ! k ! 0
         in rows \<noteq> [] \<and> blocks ! k \<noteq> [] \<and>
            feat_type u = ''integron'' \<and> feat_strand u = 0 \<and>
            qualifiers u = [(''integron_id'', iid), (''integron_type'', integron_type (hd rows))] \<and>
            ((\<forall>i. 0 < i \<and> i < length rows \<longrightarrow>
                  pos_beg (rows ! i) - pos_beg (rows ! (i - 1)) \<le> 4000) \<longrightarrow>
               location u = FeatureLocation (pos_beg (hd rows) - 1) (pos_end (last rows)) \<and>
               ((\<forall>row\<in>set rows. pos_beg (hd rows) \<le> pos_beg row \<and>
                                  pos_end row \<le> pos_end (last rows)) \<longrightarrow>
                  location u =
                    FeatureLocation (Min (pos_beg ` set rows) - 1) (Max (pos_end ` set rows)))) \<and>
            (\<forall>p. 0 < p \<and> p < length rows \<and>
                 4000 < pos_beg (rows ! p) - pos_beg (rows ! (p - 1)) \<and>
                 (\<forall>i. 0 < i \<and> i < p \<longrightarrow>
                    pos_beg (rows ! i) - pos_beg (rows ! (i - 1)) \<le> 4000) \<longrightarrow>
               location u =
                 CompoundLocation
                   [FeatureLocation (pos_beg (rows ! p) - 1) (int (length (seq gi_replicon))),
                    FeatureLocation 0 (pos_end (rows ! (p - 1)))]) \<and>
            (\<exists>n\<le>length rows. (snd ?w = None \<longrightarrow> n = length rows) \<and>
               map (elt_feature []) (take n rows) = map Inr (tl (blocks ! k))) \<and>
            ((\<forall>row\<in>set rows. type_elt row \<noteq> ''integron'') \<longrightarrow>
               length (filter (\<lambda>f. feat_type f = ''integron'') (blocks ! k)) = 1))"
      by blast
    from nb have k: "0 < length blocks" by simp
    note b = a [rule_format, OF k, unfolded Let_def ids rows]
    from b have b0: "blocks ! 0 \<noteq> []" by blast
    from b have "0 < (1::nat) \<and> 1 < length wrap_desc \<and>
                 4000 < pos_beg (wrap_desc ! 1) - pos_beg (wrap_desc ! (1 - 1)) \<and>
                 (\<forall>i. 0 < i \<and> i < 1 \<longrightarrow>
                    pos_beg (wrap_desc ! i) - pos_beg (wrap_desc ! (i - 1)) \<le> 4000) \<longrightarrow>
        location (blocks ! 0 ! 0) =
                 CompoundLocation
                   [FeatureLocation (pos_beg (wrap_desc ! 1) - 1) (int (length (seq gi_replicon))),
                    FeatureLocation 0 (pos_end (wrap_desc ! (1 - 1)))]" by blast
    with g n have l: "location (blocks ! 0 ! 0) =
        CompoundLocation [FeatureLocation 5899 6000, FeatureLocation 0 70]" by simp
    from b0 have "0 < length (blocks ! 0)" by simp
    from concat_nth_first [OF nb this] f n have "features (fst ?w) ! 0 = blocks ! 0 ! 0" by simp
    with l show ?thesis by simp
  qed
  have 2: "location (features (fst ?s) ! 0) = FeatureLocation 54 1014"
  proof -
    have h: "?s = (fst ?s, snd ?s)" by simp
    have ids: "unique (map ID_integron in0_desc) ! 0 = ''integron_01''"
      by (simp add: in0_desc_def mk_row_def)
    have rows: "filter (\<lambda>row. ID_integron row = ''integron_01'') in0_desc = in0_desc"
      by (simp add: in0_desc_def mk_row_def)
    have ne: "in0_desc \<noteq> []" by (simp add: in0_desc_def)
    have g: "pos_beg (hd in0_desc) = 55" "pos_end (last in0_desc) = 1014" "length in0_desc = 1"
      by (simp_all add: in0_desc_def mk_row_def)
    from umbrella_feature [OF h] ne obtain blocks where
      f: "features (fst ?s) = features gi_replicon @ concat blocks" and nb: "blocks \<noteq> []"
      and a: "\<forall>k<length blocks.
        (let iid = unique (map ID_integron in0_desc) ! k;
             rows = filter (\<lambda>row. ID_integron row = iid) in0_desc;
             u = blocks ! k ! 0
         in rows \<noteq> [] \<and> blocks ! k \<noteq> [] \<and>
            feat_type u = ''integron'' \<and> feat_strand u = 0 \<and>
            qualifiers u = [(''integron_id'', iid), (''integron_type'', integron_type (hd rows))] \<and>
            ((\<forall>i. 0 < i \<and> i < length rows \<longrightarrow>
                  pos_beg (rows ! i) - pos_beg (rows ! (i - 1)) \<le> 4000) \<longrightarrow>
               location u = FeatureLocation (pos_beg (hd rows) - 1) (pos_end (last rows)) \<and>
               ((\<forall>row\<in>set rows. pos_beg (hd rows) \<le> pos_beg row \<and>
                                  pos_end row \<le> pos_end (last rows)) \<longrightarrow>
                  location u =
                    FeatureLocation (Min (pos_beg ` set rows) - 1) (Max (pos_end ` set rows)))) \<and>
            (\<forall>p. 0 < p \<and> p < length rows \<and>
                 4000 < pos_beg (rows ! p) - pos_beg (rows ! (p - 1)) \<and>
                 (\<forall>i. 0 < i \<and> i < p \<longrightarrow>
                    pos_beg (rows ! i) - pos_beg (rows ! (i - 1)) \<le> 4000) \<longrightarrow>
               location u =
                 CompoundLocation
                   [FeatureLocation (pos_beg (rows ! p) - 1) (int (length (seq gi_replicon))),
                    FeatureLocation 0 (pos_end (rows ! (p - 1)))]) \<and>
            (\<exists>n\<le>length rows. (snd ?s = None \<longrightarrow> n = length rows) \<and>
               map (elt_feature acba_prots) (take n rows) = map Inr (tl (blocks ! k))) \<and>
            ((\<forall>row\<in>set rows. type_elt row \<noteq> ''integron'') \<longrightarrow>
               length (filter (\<lambda>f. feat_type f = ''integron'') (blocks ! k)) = 1))"
      by blast
    from nb have k: "0 < length blocks" by simp
    note b = a [rule_format, OF k, unfolded Let_def ids rows]
    from b have b0: "blocks ! 0 \<noteq> []" by blast
    have "\<forall>i. 0 < i \<and> i < length in0_desc \<longrightarrow>
             pos_beg (in0_desc ! i) - pos_beg (in0_desc ! (i - 1)) \<le> 4000"
      by (simp add: g)
    with b have "location (blocks ! 0 ! 0) =
        FeatureLocation (pos_beg (hd in0_desc) - 1) (pos_end (last in0_desc))" by blast
    with g have l: "location (blocks ! 0 ! 0) = FeatureLocation 54 1014" by simp
    from b0 have "0 < length (blocks ! 0)" by simp
    from concat_nth_first [OF nb this] f n have "features (fst ?s) ! 0 = blocks ! 0 ! 0" by simp
    with l show ?thesis by simp
  qed
  have 3: "map feat_type (features (fst ?w)) = [''integron'', ''attC'', ''attC'']"
    by (simp add: add_feature_def add_integron_def add_several_def umbrella_def py_index_def
        diff_gt_def where_first_def elt_feature_def append_feature_def truncate_name_def
        wrap_desc_def mk_row_def gi_replicon_def)
  have 4: "map feat_type (features (fst ?s)) = [''integron'', ''integrase'']"
    by (simp add: add_feature_def add_integron_def add_single_def translation_of_def
        py_index_def append_feature_def truncate_name_def in0_desc_def mk_row_def
        acba_prots_def gi_replicon_def)
  from 1 2 3 4 show ?thesis by blast
qed

text \<open>
  The integrase of \<open>nested_desc\<close> spans 100 to 900 and the promoter inside it 200 to 230;
  no gap exceeds the threshold. The umbrella ends where the last row ends, at 230, and
  not at the greatest \<^verbatim>\<open>pos_end\<close>, 900.
\<close>

theorem umbrella_span_counterexample:
  "pos_beg (nested_desc ! 1) - pos_beg (nested_desc ! 0) \<le> 4000 \<and>
   Min (pos_beg ` set nested_desc) = 100 \<and> Max (pos_end ` set nested_desc) = 900 \<and>
   location (features (fst (add_feature gi_replicon nested_desc acba_prots 4000)) ! 0) =
     FeatureLocation 99 230 \<and>
   location (features (fst (add_feature gi_replicon nested_desc acba_prots 4000)) ! 0) \<noteq>
     FeatureLocation (Min (pos_beg ` set nested_desc) - 1) (Max (pos_end ` set nested_desc))"
proof -
  have a: "add_feature gi_replicon nested_desc acba_prots 4000 =
    (\<lparr>name = ''0|gb|XX123456.2|'', seq = replicate 6000 CHR ''A'',
      features =
        [\<lparr>location = FeatureLocation 99 230, feat_strand = 0, feat_type = ''integron'',
          qualifiers = [(''integron_id'', ''integron_01''), (''integron_type'', ''In0'')]\<rparr>,
         \<lparr>location = FeatureLocation 99 900, feat_strand = 1, feat_type = ''integrase'',
          qualifiers = [(''protein_id'', ''ACBA.007.P01_13_1''), (''gene'', ''intI''),
                        (''model'', ''intersection_tyr_intI''),
                        (''translation'', ''MKTATAPLPPLRSVKVLDQ'')]\<rparr>,
         \<lparr>location = FeatureLocation 199 230, feat_strand = - 1, feat_type = ''promoter'',
          qualifiers = [(''promoter'', ''Pc_int1''), (''model'', ''NA'')]\<rparr>]\<rparr>, None)"
    by (simp add: add_feature_def add_integron_def add_several_def umbrella_def py_index_def
        diff_gt_def where_first_def elt_feature_def translation_of_def append_feature_def
        truncate_name_def nested_desc_def mk_row_def acba_prots_def gi_replicon_def)
  have b: "Min (pos_beg ` set nested_desc) = 100" "Max (pos_end ` set nested_desc) = 900"
    "pos_beg (nested_desc ! 1) - pos_beg (nested_desc ! 0) \<le> 4000"
    by (simp_all add: nested_desc_def mk_row_def)
  from b show ?thesis unfolding a by simp
qed

subsection \<open>The features of the elements\<close>

lemma add_feature_error:
  "snd (add_feature r desc prots thr) =
     (if \<forall>e\<in>set desc. type_elt e = ''protein'' \<longrightarrow> (\<exists>prt\<in>set prots. prot_id prt = element e)
      then None else Some IndexError)"
proof -
  let ?ids = "unique (map ID_integron desc)"
  have "snd (add_feature r desc prots thr) = snd (add_integrons r desc prots thr ?ids)"
    by (cases "add_integrons r desc prots thr ?ids")
       (auto simp: add_feature_def split: option.splits)
  also have "\<dots> = (if \<forall>iid\<in>set ?ids. \<forall>e\<in>set (filter (\<lambda>row. ID_integron row = iid) desc).
           type_elt e = ''protein'' \<longrightarrow> (\<exists>prt\<in>set prots. prot_id prt = element e)
      then None else Some IndexError)"
    by (rule add_integrons_error [OF unique_rows_nonempty])
  also have "(\<forall>iid\<in>set ?ids. \<forall>e\<in>set (filter (\<lambda>row. ID_integron row = iid) desc).
           type_elt e = ''protein'' \<longrightarrow> (\<exists>prt\<in>set prots. prot_id prt = element e)) \<longleftrightarrow>
     (\<forall>e\<in>set desc. type_elt e = ''protein'' \<longrightarrow> (\<exists>prt\<in>set prots. prot_id prt = element e))"
    by (auto simp: set_unique)
  finally show ?thesis .
qed

lemma elt_feature_props:
  assumes "elt_feature prots e = Inr f"
  shows "location f = FeatureLocation (pos_beg e - 1) (pos_end e) \<and>
     feat_strand f = strand e \<and>
     (type_elt e = ''protein'' \<longrightarrow>
        feat_type f = (if annotation e = ''intI'' then ''integrase'' else ''CDS'') \<and>
        map fst (qualifiers f) = [''protein_id'', ''gene'', ''model'', ''translation''] \<and>
        map_of (qualifiers f) ''protein_id'' = Some (element e) \<and>
        map_of (qualifiers f) ''gene'' = Some (annotation e) \<and>
        map_of (qualifiers f) ''model'' = Some (model e) \<and>
        (\<exists>prt. find (\<lambda>prt. prot_id prt = element e) prots = Some prt \<and>
               map_of (qualifiers f) ''translation'' = Some (prot_seq prt))) \<and>
     (type_elt e \<noteq> ''protein'' \<longrightarrow>
        feat_type f = type_elt e \<and>
        fst ` set (qualifiers f) = {type_elt e, ''model''} \<and>
        map_of (qualifiers f) ''model'' = Some (model e) \<and>
        (type_elt e \<noteq> ''model'' \<longrightarrow> map_of (qualifiers f) (type_elt e) = Some (element e)))"
proof (cases "type_elt e = ''protein''")
  case True
  from assms elt_feature_protein [OF True, of prots] obtain prt where
    p: "find (\<lambda>prt. prot_id prt = element e) prots = Some prt"
    and fe: "f = \<lparr>location = FeatureLocation (pos_beg e - 1) (pos_end e),
             feat_strand = strand e,
             feat_type = (if annotation e = ''intI'' then ''integrase'' else ''CDS''),
             qualifiers = [(''protein_id'', element e), (''gene'', annotation e),
                           (''model'', model e), (''translation'', prot_seq prt)]\<rparr>"
    by (auto split: option.splits)
  from True p show ?thesis unfolding fe by simp
next
  case False
  from assms elt_feature_other [OF False, of prots] have
    fe: "f = \<lparr>location = FeatureLocation (pos_beg e - 1) (pos_end e),
        feat_strand = strand e,
        feat_type = type_elt e,
        qualifiers = (if type_elt e = ''model'' then [(''model'', model e)]
                      else [(type_elt e, element e), (''model'', model e)])\<rparr>"
    by simp
  from False show ?thesis unfolding fe by auto
qed

text \<open>
  C3. \<^verbatim>\<open>add_feature\<close> returns exactly when every row of type \<^verbatim>\<open>protein\<close> has a record
  of its identifier in the protein file. In the block of an integron, the feature at
  position \<open>i + 1\<close> is the one of row \<open>i\<close> of the integron; when \<^verbatim>\<open>add_feature\<close> returns
  every row has its feature. That feature lies at \<^verbatim>\<open>(pos_beg - 1, pos_end)\<close> with the
  row's strand. For a row of type \<^verbatim>\<open>protein\<close> its type is \<^verbatim>\<open>integrase\<close> when the
  annotation is \<^verbatim>\<open>intI\<close> and \<^verbatim>\<open>CDS\<close> otherwise, and its qualifiers are \<^verbatim>\<open>protein_id\<close>
  (the element's identifier), \<^verbatim>\<open>gene\<close> (the annotation), \<^verbatim>\<open>model\<close> and \<^verbatim>\<open>translation\<close>,
  the sequence of the first record of the protein file that carries the element's
  identifier. For any other row the type is the row's \<^verbatim>\<open>type_elt\<close> and the qualifiers
  carry the model name under \<^verbatim>\<open>model\<close> and the element's identifier under the
  \<^verbatim>\<open>type_elt\<close>. This holds for an integron of one row and for an integron of several.
\<close>

theorem element_feature:
  assumes "add_feature r desc prots thr = (r', err)"
  shows "(err = None \<longleftrightarrow>
       (\<forall>e\<in>set desc. type_elt e = ''protein'' \<longrightarrow> (\<exists>prt\<in>set prots. prot_id prt = element e))) \<and>
     (\<exists>blocks. features r' = features r @ concat blocks \<and>
        length blocks \<le> length (unique (map ID_integron desc)) \<and>
        (err = None \<longrightarrow> length blocks = length (unique (map ID_integron desc))) \<and>
        (\<forall>k<length blocks.
           (let rows = filter (\<lambda>row. ID_integron row = unique (map ID_integron desc) ! k) desc
            in blocks ! k \<noteq> [] \<and> length (blocks ! k) \<le> 1 + length rows \<and>
               (err = None \<longrightarrow> length (blocks ! k) = 1 + length rows) \<and>
               (\<forall>i. i + 1 < length (blocks ! k) \<longrightarrow>
                  (let f = blocks ! k ! (i + 1); e = rows ! i
                   in location f = FeatureLocation (pos_beg e - 1) (pos_end e) \<and>
                      feat_strand f = strand e \<and>
                      (type_elt e = ''protein'' \<longrightarrow>
                         feat_type f = (if annotation e = ''intI'' then ''integrase'' else ''CDS'') \<and>
                         map fst (qualifiers f) =
                           [''protein_id'', ''gene'', ''model'', ''translation''] \<and>
                         map_of (qualifiers f) ''protein_id'' = Some (element e) \<and>
                         map_of (qualifiers f) ''gene'' = Some (annotation e) \<and>
                         map_of (qualifiers f) ''model'' = Some (model e) \<and>
                         (\<exists>prt. find (\<lambda>prt. prot_id prt = element e) prots = Some prt \<and>
                                map_of (qualifiers f) ''translation'' = Some (prot_seq prt))) \<and>
                      (type_elt e \<noteq> ''protein'' \<longrightarrow>
                         feat_type f = type_elt e \<and>
                         fst ` set (qualifiers f) = {type_elt e, ''model''} \<and>
                         map_of (qualifiers f) ''model'' = Some (model e) \<and>
                         (type_elt e \<noteq> ''model'' \<longrightarrow>
                            map_of (qualifiers f) (type_elt e) = Some (element e))))))))"
proof -
  let ?ids = "unique (map ID_integron desc)"
  from assms add_feature_error [of r desc prots thr] have 1: "err = None \<longleftrightarrow>
       (\<forall>e\<in>set desc. type_elt e = ''protein'' \<longrightarrow> (\<exists>prt\<in>set prots. prot_id prt = element e))"
    by (simp split: if_splits)
  from add_feature_blocks [OF assms] obtain blocks where
    f: "features r' = features r @ concat blocks"
    and le: "length blocks \<le> length ?ids"
    and eq: "err = None \<longrightarrow> length blocks = length ?ids"
    and b: "\<forall>k<length blocks. \<exists>u fs n.
         blocks ! k = u # fs \<and>
         filter (\<lambda>row. ID_integron row = ?ids ! k) desc \<noteq> [] \<and>
         umbrella r (?ids ! k) (filter (\<lambda>row. ID_integron row = ?ids ! k) desc) thr = Inr u \<and>
         n \<le> length (filter (\<lambda>row. ID_integron row = ?ids ! k) desc) \<and>
         (err = None \<longrightarrow> n = length (filter (\<lambda>row. ID_integron row = ?ids ! k) desc)) \<and>
         map (elt_feature prots) (take n (filter (\<lambda>row. ID_integron row = ?ids ! k) desc)) =
           map Inr fs" by blast
  have "(let rows = filter (\<lambda>row. ID_integron row = ?ids ! k) desc
            in blocks ! k \<noteq> [] \<and> length (blocks ! k) \<le> 1 + length rows \<and>
               (err = None \<longrightarrow> length (blocks ! k) = 1 + length rows) \<and>
               (\<forall>i. i + 1 < length (blocks ! k) \<longrightarrow>
                  (let f = blocks ! k ! (i + 1); e = rows ! i
                   in location f = FeatureLocation (pos_beg e - 1) (pos_end e) \<and>
                      feat_strand f = strand e \<and>
                      (type_elt e = ''protein'' \<longrightarrow>
                         feat_type f = (if annotation e = ''intI'' then ''integrase'' else ''CDS'') \<and>
                         map fst (qualifiers f) =
                           [''protein_id'', ''gene'', ''model'', ''translation''] \<and>
                         map_of (qualifiers f) ''protein_id'' = Some (element e) \<and>
                         map_of (qualifiers f) ''gene'' = Some (annotation e) \<and>
                         map_of (qualifiers f) ''model'' = Some (model e) \<and>
                         (\<exists>prt. find (\<lambda>prt. prot_id prt = element e) prots = Some prt \<and>
                                map_of (qualifiers f) ''translation'' = Some (prot_seq prt))) \<and>
                      (type_elt e \<noteq> ''protein'' \<longrightarrow>
                         feat_type f = type_elt e \<and>
                         fst ` set (qualifiers f) = {type_elt e, ''model''} \<and>
                         map_of (qualifiers f) ''model'' = Some (model e) \<and>
                         (type_elt e \<noteq> ''model'' \<longrightarrow>
                            map_of (qualifiers f) (type_elt e) = Some (element e))))))"
    if k: "k < length blocks" for k
  proof -
    let ?rows = "filter (\<lambda>row. ID_integron row = ?ids ! k) desc"
    from b k obtain u fs n where bk: "blocks ! k = u # fs"
      and n: "n \<le> length ?rows" and nn: "err = None \<longrightarrow> n = length ?rows"
      and m: "map (elt_feature prots) (take n ?rows) = map Inr fs" by blast
    from m have l: "length fs = length (take n ?rows)" by (metis length_map)
    with n have l': "length fs = n" by simp
    have e: "elt_feature prots (?rows ! i) = Inr ((u # fs) ! (i + 1))"
      if "i + 1 < length (u # fs)" for i
    proof -
      from that l have i: "i < length (take n ?rows)" by simp
      from map_eq_map_Inr_nth [OF m i] i show ?thesis by simp
    qed
    have "length (u # fs) \<le> 1 + length ?rows" using l' n by simp
    moreover have "err = None \<longrightarrow> length (u # fs) = 1 + length ?rows" using l' nn by simp
    moreover have "\<forall>i. i + 1 < length (u # fs) \<longrightarrow>
        (let f = (u # fs) ! (i + 1); e = ?rows ! i
         in location f = FeatureLocation (pos_beg e - 1) (pos_end e) \<and>
                      feat_strand f = strand e \<and>
                      (type_elt e = ''protein'' \<longrightarrow>
                         feat_type f = (if annotation e = ''intI'' then ''integrase'' else ''CDS'') \<and>
                         map fst (qualifiers f) =
                           [''protein_id'', ''gene'', ''model'', ''translation''] \<and>
                         map_of (qualifiers f) ''protein_id'' = Some (element e) \<and>
                         map_of (qualifiers f) ''gene'' = Some (annotation e) \<and>
                         map_of (qualifiers f) ''model'' = Some (model e) \<and>
                         (\<exists>prt. find (\<lambda>prt. prot_id prt = element e) prots = Some prt \<and>
                                map_of (qualifiers f) ''translation'' = Some (prot_seq prt))) \<and>
                      (type_elt e \<noteq> ''protein'' \<longrightarrow>
                         feat_type f = type_elt e \<and>
                         fst ` set (qualifiers f) = {type_elt e, ''model''} \<and>
                         map_of (qualifiers f) ''model'' = Some (model e) \<and>
                         (type_elt e \<noteq> ''model'' \<longrightarrow>
                            map_of (qualifiers f) (type_elt e) = Some (element e))))"
      unfolding Let_def using elt_feature_props [OF e] by blast
    ultimately show ?thesis unfolding bk Let_def [of ?rows] by blast
  qed
  with 1 f le eq show ?thesis by blast
qed

theorem element_feature_witness:
  "snd (add_feature gi_replicon in0_desc acba_prots 4000) = None \<and>
   feat_type (features (fst (add_feature gi_replicon in0_desc acba_prots 4000)) ! 1) =
     ''integrase'' \<and>
   map_of (qualifiers (features (fst (add_feature gi_replicon in0_desc acba_prots 4000)) ! 1))
     ''translation'' = Some ''MKTATAPLPPLRSVKVLDQ'' \<and>
   snd (add_feature gi_replicon acba_desc acba_prots 4000) = None \<and>
   feat_type (features (fst (add_feature gi_replicon acba_desc acba_prots 4000)) ! 1) =
     ''integrase'' \<and>
   feat_type (features (fst (add_feature gi_replicon acba_desc acba_prots 4000)) ! 6) =
     ''attC'' \<and>
   map_of (qualifiers (features (fst (add_feature gi_replicon acba_desc acba_prots 4000)) ! 6))
     ''attC'' = Some ''attc_003''"
proof -
  let ?s = "add_feature gi_replicon in0_desc acba_prots 4000"
  let ?a = "add_feature gi_replicon acba_desc acba_prots 4000"
  have n: "features gi_replicon = []" by (simp add: gi_replicon_def)
  have p: "find (\<lambda>prt. prot_id prt = ''ACBA.007.P01_13_1'') acba_prots =
             Some \<lparr>prot_id = ''ACBA.007.P01_13_1'', prot_seq = ''MKTATAPLPPLRSVKVLDQ''\<rparr>"
    by (simp add: acba_prots_def)
  have 1: "snd ?s = None \<and> feat_type (features (fst ?s) ! 1) = ''integrase'' \<and>
     map_of (qualifiers (features (fst ?s) ! 1)) ''translation'' = Some ''MKTATAPLPPLRSVKVLDQ''"
  proof -
    have h: "?s = (fst ?s, snd ?s)" by simp
    have m: "\<forall>e\<in>set in0_desc. type_elt e = ''protein'' \<longrightarrow>
               (\<exists>prt\<in>set acba_prots. prot_id prt = element e)"
      by (simp add: in0_desc_def mk_row_def acba_prots_def)
    have ids: "unique (map ID_integron in0_desc) ! 0 = ''integron_01''"
      "length (unique (map ID_integron in0_desc)) = 1"
      by (simp_all add: in0_desc_def mk_row_def)
    have rows: "filter (\<lambda>row. ID_integron row = ''integron_01'') in0_desc = in0_desc"
      by (simp add: in0_desc_def mk_row_def)
    have e: "type_elt (in0_desc ! 0) = ''protein''" "annotation (in0_desc ! 0) = ''intI''"
      "element (in0_desc ! 0) = ''ACBA.007.P01_13_1''" "length in0_desc = 1"
      by (simp_all add: in0_desc_def mk_row_def)
    note t = element_feature [OF h]
    from t [THEN conjunct1] m have err: "snd ?s = None" by (rule iffD2)
    from t [THEN conjunct2] obtain blocks where
      B: "features (fst ?s) = features gi_replicon @ concat blocks \<and>
        length blocks \<le> length (unique (map ID_integron in0_desc)) \<and>
        (snd ?s = None \<longrightarrow> length blocks = length (unique (map ID_integron in0_desc))) \<and>
        (\<forall>k<length blocks.
           (let rows = filter (\<lambda>row. ID_integron row = unique (map ID_integron in0_desc) ! k) in0_desc
            in blocks ! k \<noteq> [] \<and> length (blocks ! k) \<le> 1 + length rows \<and>
               (snd ?s = None \<longrightarrow> length (blocks ! k) = 1 + length rows) \<and>
               (\<forall>i. i + 1 < length (blocks ! k) \<longrightarrow>
                  (let f = blocks ! k ! (i + 1); e = rows ! i
                   in location f = FeatureLocation (pos_beg e - 1) (pos_end e) \<and>
                      feat_strand f = strand e \<and>
                      (type_elt e = ''protein'' \<longrightarrow>
                         feat_type f = (if annotation e = ''intI'' then ''integrase'' else ''CDS'') \<and>
                         map fst (qualifiers f) =
                           [''protein_id'', ''gene'', ''model'', ''translation''] \<and>
                         map_of (qualifiers f) ''protein_id'' = Some (element e) \<and>
                         map_of (qualifiers f) ''gene'' = Some (annotation e) \<and>
                         map_of (qualifiers f) ''model'' = Some (model e) \<and>
                         (\<exists>prt. find (\<lambda>prt. prot_id prt = element e) acba_prots = Some prt \<and>
                                map_of (qualifiers f) ''translation'' = Some (prot_seq prt))) \<and>
                      (type_elt e \<noteq> ''protein'' \<longrightarrow>
                         feat_type f = type_elt e \<and>
                         fst ` set (qualifiers f) = {type_elt e, ''model''} \<and>
                         map_of (qualifiers f) ''model'' = Some (model e) \<and>
                         (type_elt e \<noteq> ''model'' \<longrightarrow>
                            map_of (qualifiers f) (type_elt e) = Some (element e)))))))" ..
    note f = B [THEN conjunct1]
    note eq = B [THEN conjunct2, THEN conjunct2, THEN conjunct1]
    note a = B [THEN conjunct2, THEN conjunct2, THEN conjunct2]
    from eq err ids have lb: "length blocks = 1" by simp
    then have k: "0 < length blocks" and nb: "blocks \<noteq> []" by auto
    note b = a [rule_format, OF k, unfolded Let_def ids rows]
    from b [THEN conjunct2, THEN conjunct2, THEN conjunct1] err e
    have l0: "length (blocks ! 0) = 2" by simp
    then have i: "0 + 1 < length (blocks ! 0)" by simp
    note q = b [THEN conjunct2, THEN conjunct2, THEN conjunct2, rule_format, OF i,
                THEN conjunct2, THEN conjunct2, THEN conjunct1, rule_format, OF e(1)]
    from q [THEN conjunct1] e have c1: "feat_type (blocks ! 0 ! 1) = ''integrase''" by simp
    from q [THEN conjunct2, THEN conjunct2, THEN conjunct2, THEN conjunct2, THEN conjunct2]
    obtain prt where
      fp: "find (\<lambda>prt. prot_id prt = element (in0_desc ! 0)) acba_prots = Some prt"
      and tr: "map_of (qualifiers (blocks ! 0 ! (0 + 1))) ''translation'' = Some (prot_seq prt)"
      by blast
    from fp e p have
      "prt = \<lparr>prot_id = ''ACBA.007.P01_13_1'', prot_seq = ''MKTATAPLPPLRSVKVLDQ''\<rparr>"
      by simp
    with tr have c2:
      "map_of (qualifiers (blocks ! 0 ! 1)) ''translation'' = Some ''MKTATAPLPPLRSVKVLDQ''"
      by simp
    note c = c1 c2
    from l0 have "1 < length (blocks ! 0)" by simp
    from concat_nth_first [OF nb this] f n have "features (fst ?s) ! 1 = blocks ! 0 ! 1" by simp
    with c err show ?thesis by simp
  qed
  have 2: "snd ?a = None \<and> feat_type (features (fst ?a) ! 1) = ''integrase'' \<and>
     feat_type (features (fst ?a) ! 6) = ''attC'' \<and>
     map_of (qualifiers (features (fst ?a) ! 6)) ''attC'' = Some ''attc_003''"
  proof -
    have h: "?a = (fst ?a, snd ?a)" by simp
    have m: "\<forall>e\<in>set acba_desc. type_elt e = ''protein'' \<longrightarrow>
               (\<exists>prt\<in>set acba_prots. prot_id prt = element e)"
      by (simp add: acba_desc_def mk_row_def acba_prots_def)
    have ids: "unique (map ID_integron acba_desc) ! 0 = ''integron_01''"
      "unique (map ID_integron acba_desc) ! 1 = ''integron_02''"
      "length (unique (map ID_integron acba_desc)) = 2"
      by (simp_all add: acba_desc_def mk_row_def)
    have rows: "filter (\<lambda>row. ID_integron row = ''integron_01'') acba_desc = take 4 acba_desc"
      "filter (\<lambda>row. ID_integron row = ''integron_02'') acba_desc = drop 4 acba_desc"
      by (simp_all add: acba_desc_def mk_row_def)
    have e: "type_elt (take 4 acba_desc ! 0) = ''protein''"
      "annotation (take 4 acba_desc ! 0) = ''intI''"
      "length (take 4 acba_desc) = 4" "length (drop 4 acba_desc) = 1"
      "type_elt (drop 4 acba_desc ! 0) = ''attC''" "element (drop 4 acba_desc ! 0) = ''attc_003''"
      by (simp_all add: acba_desc_def mk_row_def)
    note t = element_feature [OF h]
    from t [THEN conjunct1] m have err: "snd ?a = None" by (rule iffD2)
    from t [THEN conjunct2] obtain blocks where
      B: "features (fst ?a) = features gi_replicon @ concat blocks \<and>
        length blocks \<le> length (unique (map ID_integron acba_desc)) \<and>
        (snd ?a = None \<longrightarrow> length blocks = length (unique (map ID_integron acba_desc))) \<and>
        (\<forall>k<length blocks.
           (let rows = filter (\<lambda>row. ID_integron row = unique (map ID_integron acba_desc) ! k) acba_desc
            in blocks ! k \<noteq> [] \<and> length (blocks ! k) \<le> 1 + length rows \<and>
               (snd ?a = None \<longrightarrow> length (blocks ! k) = 1 + length rows) \<and>
               (\<forall>i. i + 1 < length (blocks ! k) \<longrightarrow>
                  (let f = blocks ! k ! (i + 1); e = rows ! i
                   in location f = FeatureLocation (pos_beg e - 1) (pos_end e) \<and>
                      feat_strand f = strand e \<and>
                      (type_elt e = ''protein'' \<longrightarrow>
                         feat_type f = (if annotation e = ''intI'' then ''integrase'' else ''CDS'') \<and>
                         map fst (qualifiers f) =
                           [''protein_id'', ''gene'', ''model'', ''translation''] \<and>
                         map_of (qualifiers f) ''protein_id'' = Some (element e) \<and>
                         map_of (qualifiers f) ''gene'' = Some (annotation e) \<and>
                         map_of (qualifiers f) ''model'' = Some (model e) \<and>
                         (\<exists>prt. find (\<lambda>prt. prot_id prt = element e) acba_prots = Some prt \<and>
                                map_of (qualifiers f) ''translation'' = Some (prot_seq prt))) \<and>
                      (type_elt e \<noteq> ''protein'' \<longrightarrow>
                         feat_type f = type_elt e \<and>
                         fst ` set (qualifiers f) = {type_elt e, ''model''} \<and>
                         map_of (qualifiers f) ''model'' = Some (model e) \<and>
                         (type_elt e \<noteq> ''model'' \<longrightarrow>
                            map_of (qualifiers f) (type_elt e) = Some (element e)))))))" ..
    note f = B [THEN conjunct1]
    note eq = B [THEN conjunct2, THEN conjunct2, THEN conjunct1]
    note a = B [THEN conjunct2, THEN conjunct2, THEN conjunct2]
    from eq err ids have lb: "length blocks = 2" by simp
    then have k0: "0 < length blocks" and k1: "1 < length blocks" and nb: "blocks \<noteq> []"
      by auto
    note b0 = a [rule_format, OF k0, unfolded Let_def ids rows]
    note b1 = a [rule_format, OF k1, unfolded Let_def ids rows]
    from b0 [THEN conjunct2, THEN conjunct2, THEN conjunct1] err e
    have l0: "length (blocks ! 0) = 5" by simp
    from b1 [THEN conjunct2, THEN conjunct2, THEN conjunct1] err e
    have l1: "length (blocks ! 1) = 2" by simp
    from l0 have i0: "0 + 1 < length (blocks ! 0)" by simp
    from l1 have i1: "0 + 1 < length (blocks ! 1)" by simp
    note q0 = b0 [THEN conjunct2, THEN conjunct2, THEN conjunct2, rule_format, OF i0,
                  THEN conjunct2, THEN conjunct2, THEN conjunct1, rule_format, OF e(1)]
    from q0 [THEN conjunct1] e have c0: "feat_type (blocks ! 0 ! 1) = ''integrase''" by simp
    have np: "type_elt (drop 4 acba_desc ! 0) \<noteq> ''protein''"
      "type_elt (drop 4 acba_desc ! 0) \<noteq> ''model''" by (simp_all add: e)
    note q1 = b1 [THEN conjunct2, THEN conjunct2, THEN conjunct2, rule_format, OF i1,
                  THEN conjunct2, THEN conjunct2, THEN conjunct2, rule_format, OF np(1)]
    from q1 [THEN conjunct1] e have c1a: "feat_type (blocks ! 1 ! 1) = ''attC''" by simp
    from q1 [THEN conjunct2, THEN conjunct2, THEN conjunct2, rule_format, OF np(2)] e
    have c1b: "map_of (qualifiers (blocks ! 1 ! 1)) ''attC'' = Some ''attc_003''" by simp
    note c1 = c1a c1b
    from l0 have "1 < length (blocks ! 0)" by simp
    from concat_nth_first [OF nb this] f n have f1: "features (fst ?a) ! 1 = blocks ! 0 ! 1"
      by simp
    from l1 have "1 < length (blocks ! 1)" by simp
    from concat_nth_second [OF k1 this] f n l0 have f6: "features (fst ?a) ! 6 = blocks ! 1 ! 1"
      by simp
    from err c0 c1 f1 f6 show ?thesis by simp
  qed
  from 1 2 show ?thesis by blast
qed

section \<open>Properties of \<^verbatim>\<open>func_annot\<close>\<close>

subsection \<open>The rule for merged hit tables\<close>










lemma tie_env_sorts:
  "mset (sort_values tie_env xs) = mset xs \<and> sorted (map hit_evalue (sort_values tie_env xs))"
  by (simp add: tie_env_def)


subsection \<open>Integrons that are not annotated\<close>

lemma annot_loop_frame:
  "annot_loop ev cfg rn prot_file hmm_files out_dir et cov prot_nb calls integrons =
     (integrons', calls', err) \<Longrightarrow>
   length integrons' = length integrons \<and>
   (\<forall>i<length integrons.
      itype ev (integrons ! i) = ''In0'' \<or> proteins (integrons ! i) = [] \<longrightarrow>
      integrons' ! i = integrons ! i)"
proof (induction integrons arbitrary: prot_nb calls integrons' calls' err)
  case Nil
  then show ?case by simp
next
  case (Cons ig igs)
  show ?case
  proof (cases "itype ev ig \<noteq> ''In0'' \<and> proteins ig \<noteq> []")
    case True
    obtain pn1 calls1 res where a:
      "annotate ev cfg rn prot_file hmm_files out_dir et cov prot_nb calls ig = (pn1, calls1, res)"
      by (cases "annotate ev cfg rn prot_file hmm_files out_dir et cov prot_nb calls ig")
    show ?thesis
    proof (cases res)
      case (Inl e)
      with True a Cons.prems have "integrons' = ig # igs" by simp
      then show ?thesis by simp
    next
      case (Inr ig1)
      obtain igs1 calls2 r where l:
        "annot_loop ev cfg rn prot_file hmm_files out_dir et cov pn1 calls1 igs = (igs1, calls2, r)"
        by (cases "annot_loop ev cfg rn prot_file hmm_files out_dir et cov pn1 calls1 igs")
      with True a Inr Cons.prems have i': "integrons' = ig1 # igs1" by simp
      from Cons.IH [OF l] True show ?thesis unfolding i'
        by (auto simp: nth_Cons')
    qed
  next
    case False
    obtain igs1 calls2 r where l:
      "annot_loop ev cfg rn prot_file hmm_files out_dir et cov prot_nb calls igs = (igs1, calls2, r)"
      by (cases "annot_loop ev cfg rn prot_file hmm_files out_dir et cov prot_nb calls igs")
    with False Cons.prems have i': "integrons' = ig # igs1" by auto
    from Cons.IH [OF l] show ?thesis unfolding i'
      by (auto simp: nth_Cons')
  qed
qed

text \<open>
  C7. Whether \<^verbatim>\<open>func_annot\<close> returns or raises, it leaves every integron of the list
  whose type is \<^verbatim>\<open>In0\<close> or whose table of proteins is empty as it was, all tables and all
  fields included; the list keeps its length and its order.
\<close>

theorem func_annot_skips:
  assumes "func_annot ev integrons replicon prot_file hmm_files cfg out_dir eval_thr coverage =
             (integrons', calls, err)"
  shows "length integrons' = length integrons \<and>
   (\<forall>i<length integrons.
      itype ev (integrons ! i) = ''In0'' \<or> proteins (integrons ! i) = [] \<longrightarrow>
      integrons' ! i = integrons ! i)"
  using assms unfolding func_annot_def by (rule annot_loop_frame)

theorem func_annot_skips_witness:
  "itype demo_env ([in0_integron, complete_integron] ! 0) = ''In0'' \<and>
   fst (func_annot demo_env [in0_integron, complete_integron] gi_replicon demo_prots
          [''Resfams.hmm''] demo_cfg ''out'' 10 0.5) ! 0 = in0_integron \<and>
   map (annotation \<circ> snd) (proteins (fst (func_annot demo_env [in0_integron, complete_integron]
          gi_replicon demo_prots [''Resfams.hmm''] demo_cfg ''out'' 10 0.5) ! 1)) = [''qacE'']"
proof -
  let ?res = "func_annot demo_env [in0_integron, complete_integron] gi_replicon demo_prots
          [''Resfams.hmm''] demo_cfg ''out'' 10 0.5"
  have h: "?res = (fst ?res, fst (snd ?res), snd (snd ?res))" by simp
  have t: "itype demo_env ([in0_integron, complete_integron] ! 0) = ''In0''"
    by (simp add: demo_env_def spec_type_def in0_integron_def)
  from func_annot_skips [OF h] t have a: "fst ?res ! 0 = in0_integron" by fastforce
  have b: "map (annotation \<circ> snd) (proteins (fst ?res ! 1)) = [''qacE'']"
    by (simp add: func_annot_def annotate_def loc_assign_def sort_dedup_def
        sort_key_def hmm_cmd_def hmm_out_path_def path_join_def str_nat.simps demo_env_def
        spec_type_def demo_cfg_def demo_hits_def mk_hit_def in0_integron_def
        complete_integron_def mk_feature_row_def demo_prots_def gi_replicon_def)
  from t a b show ?thesis by simp
qed

subsection \<open>Failures of the external search\<close>

lemma call_error_None: "call_error cfg r = None \<longleftrightarrow> r = Exit 0"
  by (cases r) (simp_all add: call_error_def)

lemma calls_ok_append: "calls_ok ev cfg (cs @ ds) \<longleftrightarrow> calls_ok ev cfg cs \<and> calls_ok ev cfg ds"
  by (simp add: calls_ok_def)

lemma calls_ok_butlast: "calls_ok ev cfg cs \<Longrightarrow> calls_ok ev cfg (butlast cs)"
  by (auto simp: calls_ok_def list_all_iff dest: in_set_butlastD)

lemma calls_outcome_Nil: "calls_outcome ev cfg [] err"
  by (simp add: calls_outcome_def calls_ok_def)

lemma calls_outcome_append:
  assumes "calls_ok ev cfg cs" "list_all (\<lambda>c. hd (fst c) = hmmsearch cfg) cs"
    and "calls_outcome ev cfg ds err"
  shows "calls_outcome ev cfg (cs @ ds) err"
proof (cases "ds = []")
  case True
  with assms show ?thesis
    by (simp add: calls_outcome_def calls_ok_butlast)
next
  case False
  with assms show ?thesis
    by (auto simp: calls_outcome_def calls_ok_append butlast_append)
qed

lemma hd_hmm_cmd: "hd (hmm_cmd ev cfg rn od n hmm) = hmmsearch cfg"
  by (simp add: hmm_cmd_def Let_def)

lemma search_hmms_outcome:
  "search_hmms ev cfg rn od et cov pn bank calls acc hmms = (calls', res) \<Longrightarrow>
     \<exists>new. calls' = calls @ new \<and>
       calls_outcome ev cfg new (case res of Inl e \<Rightarrow> Some e | Inr _ \<Rightarrow> None) \<and>
       (\<forall>hs. res = Inr hs \<longrightarrow> calls_ok ev cfg new)"
proof (induction hmms arbitrary: calls acc)
  case Nil
  then show ?case by (simp add: calls_outcome_Nil calls_ok_def)
next
  case (Cons hmm hmms)
  show ?case
  proof (cases pn)
    case None
    with Cons.prems show ?thesis by (auto simp: calls_outcome_Nil calls_ok_def)
  next
    case (Some n)
    let ?cmd = "hmm_cmd ev cfg rn od n hmm"
    let ?c = "(?cmd, bank)"
    have hd: "list_all (\<lambda>c. hd (fst c) = hmmsearch cfg) [?c]" by (simp add: hd_hmm_cmd)
    show ?thesis
    proof (cases "call ev ?cmd bank")
      case (LaunchError m)
      with Cons.prems Some have r: "calls' = calls @ [?c]"
        "res = Inl (RuntimeError (hmmsearch cfg @ '' failed : '' @ m))"
        by (simp_all add: Let_def hd_hmm_cmd)
      have "calls_outcome ev cfg [?c] (Some (RuntimeError (hmmsearch cfg @ '' failed : '' @ m)))"
        using LaunchError hd by (simp add: calls_outcome_def calls_ok_def call_error_def)
      with r show ?thesis by simp
    next
      case (Exit rc)
      show ?thesis
      proof (cases "rc = 0")
        case False
        with Cons.prems Some Exit have r: "calls' = calls @ [?c]"
          "res = Inl (RuntimeError (hmmsearch cfg @ '' failed return code = '' @ str_int rc))"
          by (simp_all add: Let_def hd_hmm_cmd)
        have "calls_outcome ev cfg [?c]
                (Some (RuntimeError (hmmsearch cfg @ '' failed return code = '' @ str_int rc)))"
          using Exit False hd by (simp add: calls_outcome_def calls_ok_def call_error_def)
        with r show ?thesis by simp
      next
        case True
        let ?acc = "acc @ sort_dedup ev (read_hmm ev rn (hmm_out_path ev rn od hmm) bank et cov)"
        from Cons.prems Some Exit True have
          "search_hmms ev cfg rn od et cov pn bank (calls @ [?c]) ?acc hmms = (calls', res)"
          by (simp add: Let_def)
        from Cons.IH [OF this] obtain new where n: "calls' = (calls @ [?c]) @ new"
          and o: "calls_outcome ev cfg new (case res of Inl e \<Rightarrow> Some e | Inr _ \<Rightarrow> None)"
          and k: "\<forall>hs. res = Inr hs \<longrightarrow> calls_ok ev cfg new" by blast
        have ok: "calls_ok ev cfg [?c]" using Exit True by (simp add: calls_ok_def call_error_def)
        from calls_outcome_append [OF ok hd o]
        have "calls_outcome ev cfg ([?c] @ new) (case res of Inl e \<Rightarrow> Some e | Inr _ \<Rightarrow> None)" .
        moreover from k ok have "\<forall>hs. res = Inr hs \<longrightarrow> calls_ok ev cfg ([?c] @ new)"
          unfolding calls_ok_append by blast
        moreover from n have "calls' = calls @ ([?c] @ new)" by simp
        ultimately show ?thesis by blast
      qed
    qed
  qed
qed

lemma annotate_outcome:
  assumes "annotate ev cfg rn prot_file hmm_files od et cov pn calls ig = (pn1, calls1, res)"
  shows "\<exists>new. calls1 = calls @ new \<and>
       calls_outcome ev cfg new (case res of Inl e \<Rightarrow> Some e | Inr _ \<Rightarrow> None) \<and>
       (\<forall>ig1. res = Inr ig1 \<longrightarrow> calls_ok ev cfg new)"
proof -
  let ?bank = "filter (\<lambda>prot. prot_id prot \<in> fst ` set (proteins ig)) prot_file"
  let ?pn = "if prot_file = [] then pn else Some (length prot_file)"
  obtain cs r where s: "search_hmms ev cfg rn od et cov ?pn ?bank calls [] hmm_files = (cs, r)"
    by (cases "search_hmms ev cfg rn od et cov ?pn ?bank calls [] hmm_files")
  from search_hmms_outcome [OF s] obtain new where n: "cs = calls @ new"
    and o: "calls_outcome ev cfg new (case r of Inl e \<Rightarrow> Some e | Inr _ \<Rightarrow> None)"
    and k: "\<forall>hs. r = Inr hs \<longrightarrow> calls_ok ev cfg new" by blast
  show ?thesis
  proof (cases r)
    case (Inl e)
    with assms s have "calls1 = cs" "res = Inl e" by (simp_all add: annotate_def Let_def)
    with n o Inl show ?thesis by simp
  next
    case (Inr hs)
    with k have ok: "calls_ok ev cfg new" by simp
    from o have hd: "list_all (\<lambda>c. hd (fst c) = hmmsearch cfg) new"
      by (simp add: calls_outcome_def)
    from assms s Inr have c1: "calls1 = cs"
      by (auto simp: annotate_def Let_def split: sum.splits)
    from ok hd have "calls_outcome ev cfg new e" for e
      by (simp add: calls_outcome_def calls_ok_butlast)
    with c1 n ok show ?thesis by blast
  qed
qed

lemma annot_loop_outcome:
  "annot_loop ev cfg rn prot_file hmm_files od et cov pn calls igs = (igs', calls', err) \<Longrightarrow>
     \<exists>new. calls' = calls @ new \<and> calls_outcome ev cfg new err"
proof (induction igs arbitrary: pn calls igs' calls' err)
  case Nil
  then show ?case by (simp add: calls_outcome_Nil)
next
  case (Cons ig igs)
  show ?case
  proof (cases "itype ev ig \<noteq> ''In0'' \<and> proteins ig \<noteq> []")
    case True
    obtain pn1 calls1 res where a:
      "annotate ev cfg rn prot_file hmm_files od et cov pn calls ig = (pn1, calls1, res)"
      by (cases "annotate ev cfg rn prot_file hmm_files od et cov pn calls ig")
    from annotate_outcome [OF a] obtain new1 where n1: "calls1 = calls @ new1"
      and o1: "calls_outcome ev cfg new1 (case res of Inl e \<Rightarrow> Some e | Inr _ \<Rightarrow> None)"
      and k1: "\<forall>ig1. res = Inr ig1 \<longrightarrow> calls_ok ev cfg new1" by blast
    show ?thesis
    proof (cases res)
      case (Inl e)
      with True a Cons.prems have "calls' = calls1" "err = Some e" by simp_all
      with n1 o1 Inl show ?thesis by simp
    next
      case (Inr ig1)
      obtain igs1 calls2 r where l:
        "annot_loop ev cfg rn prot_file hmm_files od et cov pn1 calls1 igs = (igs1, calls2, r)"
        by (cases "annot_loop ev cfg rn prot_file hmm_files od et cov pn1 calls1 igs")
      with True a Inr Cons.prems have e: "calls' = calls2" "err = r" by simp_all
      from Cons.IH [OF l] obtain new2 where n2: "calls2 = calls1 @ new2"
        and o2: "calls_outcome ev cfg new2 r" by blast
      from k1 Inr have ok: "calls_ok ev cfg new1" by simp
      from o1 have hd: "list_all (\<lambda>c. hd (fst c) = hmmsearch cfg) new1"
        by (simp add: calls_outcome_def)
      from calls_outcome_append [OF ok hd o2] e n1 n2 show ?thesis by auto
    qed
  next
    case False
    obtain igs1 calls2 r where l:
      "annot_loop ev cfg rn prot_file hmm_files od et cov pn calls igs = (igs1, calls2, r)"
      by (cases "annot_loop ev cfg rn prot_file hmm_files od et cov pn calls igs")
    with False Cons.prems have e: "calls' = calls2" "err = r" by auto
    from Cons.IH [OF l] e show ?thesis by simp
  qed
qed

text \<open>
  C9. Every command that \<^verbatim>\<open>func_annot\<close> hands to \<^verbatim>\<open>call\<close> starts with the executable
  \<^verbatim>\<open>cfg.hmmsearch\<close>. A call that is followed by another call returned 0: after a call
  that could not be started or that returned another code, nothing is called again. And
  when the last call could not be started, or returned a code other than 0,
  \<^verbatim>\<open>func_annot\<close> raises to its caller the \<^verbatim>\<open>RuntimeError\<close> whose message names the
  executable and the message of the failure, or the executable and the return code.
\<close>

theorem call_failure_raises:
  assumes "func_annot ev integrons replicon prot_file hmm_files cfg out_dir eval_thr coverage =
             (integrons', calls, err)"
  shows "(\<forall>k<length calls. hd (fst (calls ! k)) = hmmsearch cfg \<and>
            (k + 1 < length calls \<longrightarrow> call ev (fst (calls ! k)) (snd (calls ! k)) = Exit 0)) \<and>
     (calls \<noteq> [] \<longrightarrow>
       (\<forall>m. call ev (fst (last calls)) (snd (last calls)) = LaunchError m \<longrightarrow>
          err = Some (RuntimeError (hmmsearch cfg @ '' failed : '' @ m))) \<and>
       (\<forall>rc. call ev (fst (last calls)) (snd (last calls)) = Exit rc \<and> rc \<noteq> 0 \<longrightarrow>
          err = Some (RuntimeError (hmmsearch cfg @ '' failed return code = '' @ str_int rc))))"
proof -
  from assms annot_loop_outcome [of ev cfg "name replicon" prot_file hmm_files out_dir eval_thr
      coverage None "[]" integrons integrons' calls err]
  have o: "calls_outcome ev cfg calls err" by (simp add: func_annot_def)
  then have hd: "\<forall>c\<in>set calls. hd (fst c) = hmmsearch cfg"
    and bl: "\<forall>c\<in>set (butlast calls). call ev (fst c) (snd c) = Exit 0"
    and la: "(\<forall>c\<in>set calls. call ev (fst c) (snd c) = Exit 0) \<or>
       (calls \<noteq> [] \<and> call_error cfg (call ev (fst (last calls)) (snd (last calls))) = err)"
    by (auto simp: calls_outcome_def calls_ok_def list_all_iff call_error_None)
  have 1: "hd (fst (calls ! k)) = hmmsearch cfg \<and>
            (k + 1 < length calls \<longrightarrow> call ev (fst (calls ! k)) (snd (calls ! k)) = Exit 0)"
    if k: "k < length calls" for k
  proof -
    from k hd have "hd (fst (calls ! k)) = hmmsearch cfg" by simp
    moreover have "call ev (fst (calls ! k)) (snd (calls ! k)) = Exit 0" if "k + 1 < length calls"
    proof -
      from that have "k < length (butlast calls)" by simp
      then have "butlast calls ! k \<in> set (butlast calls)" by (rule nth_mem)
      moreover from \<open>k < length (butlast calls)\<close> have "butlast calls ! k = calls ! k"
        by (simp add: nth_butlast)
      ultimately show ?thesis using bl by auto
    qed
    ultimately show ?thesis by blast
  qed
  have 2: "err = Some (RuntimeError (hmmsearch cfg @ '' failed : '' @ m))"
    if "calls \<noteq> []" "call ev (fst (last calls)) (snd (last calls)) = LaunchError m" for m
  proof -
    from that have "last calls \<in> set calls" by simp
    with la that show ?thesis by (auto simp: call_error_def)
  qed
  have 3: "err = Some (RuntimeError (hmmsearch cfg @ '' failed return code = '' @ str_int rc))"
    if "calls \<noteq> []" "call ev (fst (last calls)) (snd (last calls)) = Exit rc" "rc \<noteq> 0" for rc
  proof -
    from that have "last calls \<in> set calls" by simp
    with la that show ?thesis by (auto simp: call_error_def)
  qed
  from 1 2 3 show ?thesis by blast
qed

theorem call_failure_raises_witness:
  "fst (snd (func_annot demo_env [in0_integron, complete_integron] gi_replicon demo_prots
       [''Resfams.hmm''] (demo_cfg\<lparr>cpu := ''foo''\<rparr>) ''out'' 10 0.5)) =
     [([''hmmsearch'', ''-Z'', ''3'', ''--cpu'', ''foo'', ''--tblout'',
        ''out/gi|00000000|gb|XX123456.2|_Resfams_fa_table.res'', ''-o'',
        ''out/gi|00000000|gb|XX123456.2|_Resfams_fa.res'', ''Resfams.hmm'',
        ''out/gi|00000000|gb|XX123456.2|_subseqprot.tmp''],
       [\<lparr>prot_id = ''ACBA.007.P01_13_2'', prot_seq = ''MSNAVRLTCEQ''\<rparr>])] \<and>
   snd (snd (func_annot demo_env [in0_integron, complete_integron] gi_replicon demo_prots
       [''Resfams.hmm''] (demo_cfg\<lparr>cpu := ''foo''\<rparr>) ''out'' 10 0.5)) =
     Some (RuntimeError ''hmmsearch failed return code = 1'') \<and>
   snd (snd (func_annot demo_env [in0_integron, complete_integron] gi_replicon demo_prots
       [''Resfams.hmm''] (demo_cfg\<lparr>hmmsearch := ''foo''\<rparr>) ''out'' 10 0.5)) =
     Some (RuntimeError ''foo failed : [Errno 2] No such file or directory'')"
proof -
  let ?r1 = "func_annot demo_env [in0_integron, complete_integron] gi_replicon demo_prots
       [''Resfams.hmm''] (demo_cfg\<lparr>cpu := ''foo''\<rparr>) ''out'' 10 0.5"
  let ?r2 = "func_annot demo_env [in0_integron, complete_integron] gi_replicon demo_prots
       [''Resfams.hmm''] (demo_cfg\<lparr>hmmsearch := ''foo''\<rparr>) ''out'' 10 0.5"
  have h1: "?r1 = (fst ?r1, fst (snd ?r1), snd (snd ?r1))"
    and h2: "?r2 = (fst ?r2, fst (snd ?r2), snd (snd ?r2))" by simp_all
  have c1: "fst (snd ?r1) =
     [([''hmmsearch'', ''-Z'', ''3'', ''--cpu'', ''foo'', ''--tblout'',
        ''out/gi|00000000|gb|XX123456.2|_Resfams_fa_table.res'', ''-o'',
        ''out/gi|00000000|gb|XX123456.2|_Resfams_fa.res'', ''Resfams.hmm'',
        ''out/gi|00000000|gb|XX123456.2|_subseqprot.tmp''],
       [\<lparr>prot_id = ''ACBA.007.P01_13_2'', prot_seq = ''MSNAVRLTCEQ''\<rparr>])]"
    by (simp add: func_annot_def annotate_def hmm_cmd_def hmm_out_path_def path_join_def
        str_nat.simps demo_env_def spec_type_def demo_cfg_def in0_integron_def
        complete_integron_def mk_feature_row_def demo_prots_def gi_replicon_def)
  have c2: "fst (snd ?r2) =
     [([''foo'', ''-Z'', ''3'', ''--cpu'', ''1'', ''--tblout'',
        ''out/gi|00000000|gb|XX123456.2|_Resfams_fa_table.res'', ''-o'',
        ''out/gi|00000000|gb|XX123456.2|_Resfams_fa.res'', ''Resfams.hmm'',
        ''out/gi|00000000|gb|XX123456.2|_subseqprot.tmp''],
       [\<lparr>prot_id = ''ACBA.007.P01_13_2'', prot_seq = ''MSNAVRLTCEQ''\<rparr>])]"
    by (simp add: func_annot_def annotate_def hmm_cmd_def hmm_out_path_def path_join_def
        str_nat.simps demo_env_def spec_type_def demo_cfg_def in0_integron_def
        complete_integron_def mk_feature_row_def demo_prots_def gi_replicon_def)
  have e1: "call demo_env (fst (last (fst (snd ?r1)))) (snd (last (fst (snd ?r1)))) = Exit 1"
    unfolding c1 by (simp add: demo_env_def)
  have e2: "call demo_env (fst (last (fst (snd ?r2)))) (snd (last (fst (snd ?r2)))) =
      LaunchError ''[Errno 2] No such file or directory''"
    unfolding c2 by (simp add: demo_env_def)
  from call_failure_raises [OF h1] e1 c1
  have "snd (snd ?r1) = Some (RuntimeError (hmmsearch (demo_cfg\<lparr>cpu := ''foo''\<rparr>) @
      '' failed return code = '' @ str_int 1))" by fastforce
  then have 1: "snd (snd ?r1) = Some (RuntimeError ''hmmsearch failed return code = 1'')"
    by (simp add: demo_cfg_def str_int_def str_nat.simps)
  from call_failure_raises [OF h2] e2 c2
  have "snd (snd ?r2) = Some (RuntimeError (hmmsearch (demo_cfg\<lparr>hmmsearch := ''foo''\<rparr>) @
      '' failed : '' @ ''[Errno 2] No such file or directory''))" by fastforce
  then have 2: "snd (snd ?r2) =
      Some (RuntimeError ''foo failed : [Errno 2] No such file or directory'')"
    by (simp add: demo_cfg_def)
  from c1 1 2 show ?thesis by simp
qed

subsection \<open>The number of proteins given to the search\<close>

lemma search_hmms_cmds:
  "search_hmms ev cfg rn od et cov pn bank calls acc hmms = (calls', res) \<Longrightarrow>
     \<exists>new. calls' = calls @ new \<and>
       (\<forall>c\<in>set new. \<exists>n hmm. pn = Some n \<and> c = (hmm_cmd ev cfg rn od n hmm, bank))"
proof (induction hmms arbitrary: calls acc)
  case Nil
  then show ?case by simp
next
  case (Cons hmm hmms)
  show ?case
  proof (cases pn)
    case None
    with Cons.prems show ?thesis by simp
  next
    case (Some n)
    let ?c = "(hmm_cmd ev cfg rn od n hmm, bank)"
    show ?thesis
    proof (cases "call ev (hmm_cmd ev cfg rn od n hmm) bank = Exit 0")
      case False
      with Cons.prems Some have "calls' = calls @ [?c]"
        by (auto simp: Let_def split: call_result.splits if_splits)
      moreover have "\<forall>c\<in>set [?c]. \<exists>n hmm. pn = Some n \<and> c = (hmm_cmd ev cfg rn od n hmm, bank)"
        using Some by simp blast
      ultimately show ?thesis by blast
    next
      case True
      let ?acc = "acc @ sort_dedup ev (read_hmm ev rn (hmm_out_path ev rn od hmm) bank et cov)"
      from Cons.prems Some True have
        "search_hmms ev cfg rn od et cov pn bank (calls @ [?c]) ?acc hmms = (calls', res)"
        by (simp add: Let_def)
      from Cons.IH [OF this] obtain new where "calls' = (calls @ [?c]) @ new"
        and "\<forall>c\<in>set new. \<exists>n hmm. pn = Some n \<and> c = (hmm_cmd ev cfg rn od n hmm, bank)"
        by blast
      then have "calls' = calls @ (?c # new)"
        and "\<forall>c\<in>set (?c # new). \<exists>n hmm. pn = Some n \<and> c = (hmm_cmd ev cfg rn od n hmm, bank)"
        using Some by simp_all blast
      then show ?thesis by blast
    qed
  qed
qed

lemma search_hmms_unbound:
  "hmms \<noteq> [] \<Longrightarrow>
     search_hmms ev cfg rn od et cov None bank calls acc hmms =
       (calls, Inl (UnboundLocalError ''prot_nb''))"
  by (cases hmms) simp_all

lemma annotate_cmds:
  assumes a: "annotate ev cfg rn prot_file hmm_files od et cov pn calls ig = (pn1, calls1, res)"
    and pn: "pn = None \<or> pn = Some (length prot_file)"
  shows "(pn1 = None \<or> pn1 = Some (length prot_file)) \<and>
     (\<exists>new. calls1 = calls @ new \<and>
        (\<forall>c\<in>set new. \<exists>hmm. c =
           (hmm_cmd ev cfg rn od (length prot_file) hmm,
            filter (\<lambda>prot. prot_id prot \<in> fst ` set (proteins ig)) prot_file)))"
proof -
  let ?bank = "filter (\<lambda>prot. prot_id prot \<in> fst ` set (proteins ig)) prot_file"
  define pn' where "pn' = (if prot_file = [] then pn else Some (length prot_file))"
  from pn have p: "pn' = None \<or> pn' = Some (length prot_file)" by (auto simp: pn'_def)
  obtain cs r where s: "search_hmms ev cfg rn od et cov pn' ?bank calls [] hmm_files = (cs, r)"
    by (cases "search_hmms ev cfg rn od et cov pn' ?bank calls [] hmm_files")
  note a' = a [unfolded annotate_def Let_def, folded pn'_def, unfolded s]
  have e: "pn1 = pn' \<and> calls1 = cs"
  proof (cases r)
    case (Inl x)
    with a' show ?thesis by simp
  next
    case (Inr hs)
    with a' show ?thesis
      by (cases "loc_assign (proteins ig) (sort_dedup ev hs)") simp_all
  qed
  from search_hmms_cmds [OF s] obtain new where n: "cs = calls @ new"
    and c: "\<forall>c\<in>set new. \<exists>n hmm. pn' = Some n \<and> c = (hmm_cmd ev cfg rn od n hmm, ?bank)"
    by blast
  have "\<forall>c\<in>set new. \<exists>hmm. c = (hmm_cmd ev cfg rn od (length prot_file) hmm, ?bank)"
  proof
    fix c assume "c \<in> set new"
    with c obtain n hmm where "pn' = Some n" "c = (hmm_cmd ev cfg rn od n hmm, ?bank)" by blast
    with p show "\<exists>hmm. c = (hmm_cmd ev cfg rn od (length prot_file) hmm, ?bank)" by auto
  qed
  with e n p show ?thesis by blast
qed

lemma annotate_unbound:
  "prot_file = [] \<Longrightarrow> hmm_files \<noteq> [] \<Longrightarrow>
     annotate ev cfg rn prot_file hmm_files od et cov None calls ig =
       (None, calls, Inl (UnboundLocalError ''prot_nb''))"
  by (simp add: annotate_def search_hmms_unbound)

lemma annot_loop_cmds:
  "annot_loop ev cfg rn prot_file hmm_files od et cov pn calls igs = (igs', calls', err) \<Longrightarrow>
   pn = None \<or> pn = Some (length prot_file) \<Longrightarrow>
     \<exists>new. calls' = calls @ new \<and>
       (\<forall>c\<in>set new. \<exists>hmm. \<exists>g\<in>set igs. c =
          (hmm_cmd ev cfg rn od (length prot_file) hmm,
           filter (\<lambda>prot. prot_id prot \<in> fst ` set (proteins g)) prot_file))"
proof (induction igs arbitrary: pn calls igs' calls' err)
  case Nil
  then show ?case by simp
next
  case (Cons ig igs)
  let ?P = "\<lambda>gs c. \<exists>hmm. \<exists>g\<in>set gs. c =
          (hmm_cmd ev cfg rn od (length prot_file) hmm,
           filter (\<lambda>prot. prot_id prot \<in> fst ` set (proteins g)) prot_file)"
  have tail: "?P (ig # igs) c" if "?P igs c" for c
  proof -
    from that obtain hmm g where "g \<in> set igs" and c: "c =
          (hmm_cmd ev cfg rn od (length prot_file) hmm,
           filter (\<lambda>prot. prot_id prot \<in> fst ` set (proteins g)) prot_file)" by blast
    then have "g \<in> set (ig # igs)" by simp
    with c show ?thesis by blast
  qed
  show ?case
  proof (cases "itype ev ig \<noteq> ''In0'' \<and> proteins ig \<noteq> []")
    case True
    obtain pn1 calls1 res where a:
      "annotate ev cfg rn prot_file hmm_files od et cov pn calls ig = (pn1, calls1, res)"
      by (cases "annotate ev cfg rn prot_file hmm_files od et cov pn calls ig")
    from annotate_cmds [OF a Cons.prems(2)] obtain new1 where
      p1: "pn1 = None \<or> pn1 = Some (length prot_file)" and n1: "calls1 = calls @ new1"
      and c1: "\<forall>c\<in>set new1. \<exists>hmm. c =
           (hmm_cmd ev cfg rn od (length prot_file) hmm,
            filter (\<lambda>prot. prot_id prot \<in> fst ` set (proteins ig)) prot_file)" by blast
    have head: "?P (ig # igs) c" if "c \<in> set new1" for c
    proof -
      from that c1 obtain hmm where c: "c =
           (hmm_cmd ev cfg rn od (length prot_file) hmm,
            filter (\<lambda>prot. prot_id prot \<in> fst ` set (proteins ig)) prot_file)" by blast
      have "ig \<in> set (ig # igs)" by simp
      with c show ?thesis by blast
    qed
    show ?thesis
    proof (cases res)
      case (Inl e)
      with True a Cons.prems(1) have "calls' = calls1" by simp
      with n1 have "calls' = calls @ new1" by simp
      with head show ?thesis by blast
    next
      case (Inr ig1)
      obtain igs1 calls2 r where l:
        "annot_loop ev cfg rn prot_file hmm_files od et cov pn1 calls1 igs = (igs1, calls2, r)"
        by (cases "annot_loop ev cfg rn prot_file hmm_files od et cov pn1 calls1 igs")
      with True a Inr Cons.prems(1) have e: "calls' = calls2" by simp
      from Cons.IH [OF l p1] obtain new2 where n2: "calls2 = calls1 @ new2"
        and c2: "\<forall>c\<in>set new2. ?P igs c" by blast
      from e n1 n2 have "calls' = calls @ (new1 @ new2)" by simp
      moreover have "\<forall>c\<in>set (new1 @ new2). ?P (ig # igs) c"
      proof
        fix c assume "c \<in> set (new1 @ new2)"
        then consider "c \<in> set new1" | "c \<in> set new2" by auto
        then show "?P (ig # igs) c"
        proof cases
          case 1
          then show ?thesis by (rule head)
        next
          case 2
          with c2 have "?P igs c" by blast
          then show ?thesis by (rule tail)
        qed
      qed
      ultimately show ?thesis by blast
    qed
  next
    case False
    obtain igs1 calls2 r where l:
      "annot_loop ev cfg rn prot_file hmm_files od et cov pn calls igs = (igs1, calls2, r)"
      by (cases "annot_loop ev cfg rn prot_file hmm_files od et cov pn calls igs")
    with False Cons.prems(1) have e: "calls' = calls2" by auto
    from Cons.IH [OF l Cons.prems(2)] e obtain new where n: "calls' = calls @ new"
      and c: "\<forall>c\<in>set new. ?P igs c" by blast
    from c tail have "\<forall>c\<in>set new. ?P (ig # igs) c" by blast
    with n show ?thesis by blast
  qed
qed

lemma annot_loop_unbound:
  "prot_file = [] \<Longrightarrow> hmm_files \<noteq> [] \<Longrightarrow>
   \<exists>ig\<in>set igs. itype ev ig \<noteq> ''In0'' \<and> proteins ig \<noteq> [] \<Longrightarrow>
     annot_loop ev cfg rn prot_file hmm_files od et cov None calls igs =
       (igs, calls, Some (UnboundLocalError ''prot_nb''))"
proof (induction igs)
  case Nil
  then show ?case by simp
next
  case (Cons ig igs)
  show ?case
  proof (cases "itype ev ig \<noteq> ''In0'' \<and> proteins ig \<noteq> []")
    case True
    with Cons.prems(1,2) show ?thesis by (simp add: annotate_unbound)
  next
    case False
    with Cons.prems(3) have "\<exists>ig\<in>set igs. itype ev ig \<noteq> ''In0'' \<and> proteins ig \<noteq> []" by auto
    from Cons.IH [OF Cons.prems(1,2) this] False show ?thesis by auto
  qed
qed

lemma hmm_cmd_Z:
  "hmm_cmd ev cfg rn od n hmm ! 1 = ''-Z'' \<and> hmm_cmd ev cfg rn od n hmm ! 2 = str_nat n"
  by (simp add: hmm_cmd_def Let_def)

text \<open>
  C10 (amended). When the protein file has no record, at least one profile is given and
  some integron of the list is neither an \<^verbatim>\<open>In0\<close> nor without proteins, \<^verbatim>\<open>func_annot\<close>
  raises the \<^verbatim>\<open>UnboundLocalError\<close> of the variable \<^verbatim>\<open>prot_nb\<close> when it builds the first
  command line: nothing has been called and no integron has changed. And in every
  command that \<^verbatim>\<open>func_annot\<close> runs, the argument after \<^verbatim>\<open>-Z\<close> is the number of records
  of the whole protein file, while the bank the command searches is the part of the
  file whose identifiers are in the table of proteins of an integron.
\<close>

theorem prot_nb_unbound:
  "(prot_file = [] \<and> hmm_files \<noteq> [] \<and>
    (\<exists>ig\<in>set integrons. itype ev ig \<noteq> ''In0'' \<and> proteins ig \<noteq> []) \<longrightarrow>
      func_annot ev integrons replicon prot_file hmm_files cfg out_dir eval_thr coverage =
        (integrons, [], Some (UnboundLocalError ''prot_nb''))) \<and>
   (\<forall>c\<in>set (fst (snd
        (func_annot ev integrons replicon prot_file hmm_files cfg out_dir eval_thr coverage))).
      fst c ! 1 = ''-Z'' \<and> fst c ! 2 = str_nat (length prot_file) \<and>
      (\<exists>ig\<in>set integrons.
         snd c = filter (\<lambda>prot. prot_id prot \<in> fst ` set (proteins ig)) prot_file))"
proof -
  let ?res = "func_annot ev integrons replicon prot_file hmm_files cfg out_dir eval_thr coverage"
  have 1: "?res = (integrons, [], Some (UnboundLocalError ''prot_nb''))"
    if "prot_file = [] \<and> hmm_files \<noteq> [] \<and>
        (\<exists>ig\<in>set integrons. itype ev ig \<noteq> ''In0'' \<and> proteins ig \<noteq> [])"
    unfolding func_annot_def using that by (intro annot_loop_unbound) simp_all
  obtain igs' calls err where r: "?res = (igs', calls, err)" by (cases ?res)
  then have "annot_loop ev cfg (name replicon) prot_file hmm_files out_dir eval_thr coverage
               None [] integrons = (igs', calls, err)" by (simp add: func_annot_def)
  from annot_loop_cmds [OF this] have c: "\<forall>c\<in>set calls. \<exists>hmm. \<exists>g\<in>set integrons. c =
          (hmm_cmd ev cfg (name replicon) out_dir (length prot_file) hmm,
           filter (\<lambda>prot. prot_id prot \<in> fst ` set (proteins g)) prot_file)" by simp
  have 2: "fst c ! 1 = ''-Z'' \<and> fst c ! 2 = str_nat (length prot_file) \<and>
      (\<exists>ig\<in>set integrons.
         snd c = filter (\<lambda>prot. prot_id prot \<in> fst ` set (proteins ig)) prot_file)"
    if "c \<in> set (fst (snd ?res))" for c
  proof -
    from that r have "c \<in> set calls" by simp
    with c obtain hmm g where g: "g \<in> set integrons" and e: "c =
          (hmm_cmd ev cfg (name replicon) out_dir (length prot_file) hmm,
           filter (\<lambda>prot. prot_id prot \<in> fst ` set (proteins g)) prot_file)" by blast
    from e hmm_cmd_Z [of ev cfg "name replicon" out_dir "length prot_file" hmm]
    have "fst c ! 1 = ''-Z'' \<and> fst c ! 2 = str_nat (length prot_file)" by simp
    moreover from e g have "\<exists>ig\<in>set integrons.
         snd c = filter (\<lambda>prot. prot_id prot \<in> fst ` set (proteins ig)) prot_file"
      by (intro bexI [of _ g]) simp_all
    ultimately show ?thesis by blast
  qed
  from 1 2 show ?thesis by blast
qed

theorem prot_nb_unbound_witness:
  "itype demo_env complete_integron \<noteq> ''In0'' \<and> proteins complete_integron \<noteq> [] \<and>
   func_annot demo_env [in0_integron, complete_integron] gi_replicon [] [''Resfams.hmm'']
     demo_cfg ''out'' 10 0.5 =
     ([in0_integron, complete_integron], [], Some (UnboundLocalError ''prot_nb'')) \<and>
   length demo_prots = 3 \<and>
   fst (fst (snd (func_annot demo_env [in0_integron, complete_integron] gi_replicon demo_prots
      [''Resfams.hmm''] demo_cfg ''out'' 10 0.5)) ! 0) ! 2 = ''3'' \<and>
   length (snd (fst (snd (func_annot demo_env [in0_integron, complete_integron] gi_replicon
      demo_prots [''Resfams.hmm''] demo_cfg ''out'' 10 0.5)) ! 0)) = 1"
proof -
  let ?r1 = "func_annot demo_env [in0_integron, complete_integron] gi_replicon demo_prots
      [''Resfams.hmm''] demo_cfg ''out'' 10 0.5"
  have a: "itype demo_env complete_integron \<noteq> ''In0''" "proteins complete_integron \<noteq> []"
    by (simp_all add: demo_env_def spec_type_def complete_integron_def)
  then have h: "([]::prot list) = [] \<and> [''Resfams.hmm''] \<noteq> [] \<and>
    (\<exists>ig\<in>set [in0_integron, complete_integron]. itype demo_env ig \<noteq> ''In0'' \<and> proteins ig \<noteq> [])"
    by simp
  from prot_nb_unbound [where prot_file = "[]" and hmm_files = "[''Resfams.hmm'']"
      and integrons = "[in0_integron, complete_integron]" and ev = demo_env
      and replicon = gi_replicon and cfg = demo_cfg and out_dir = "''out''"
      and eval_thr = 10 and coverage = "0.5"] h
  have 1: "func_annot demo_env [in0_integron, complete_integron] gi_replicon [] [''Resfams.hmm'']
     demo_cfg ''out'' 10 0.5 =
     ([in0_integron, complete_integron], [], Some (UnboundLocalError ''prot_nb''))" by blast
  have c: "fst (snd ?r1) =
     [([''hmmsearch'', ''-Z'', ''3'', ''--cpu'', ''1'', ''--tblout'',
        ''out/gi|00000000|gb|XX123456.2|_Resfams_fa_table.res'', ''-o'',
        ''out/gi|00000000|gb|XX123456.2|_Resfams_fa.res'', ''Resfams.hmm'',
        ''out/gi|00000000|gb|XX123456.2|_subseqprot.tmp''],
       [\<lparr>prot_id = ''ACBA.007.P01_13_2'', prot_seq = ''MSNAVRLTCEQ''\<rparr>])]"
    by (simp add: func_annot_def annotate_def loc_assign_def sort_dedup_def
        sort_key_def hmm_cmd_def hmm_out_path_def path_join_def str_nat.simps demo_env_def
        spec_type_def demo_cfg_def demo_hits_def mk_hit_def in0_integron_def
        complete_integron_def mk_feature_row_def demo_prots_def gi_replicon_def)
  then have m: "fst (snd ?r1) ! 0 \<in> set (fst (snd ?r1))" by simp
  have l: "length demo_prots = 3" by (simp add: demo_prots_def)
  from prot_nb_unbound [where prot_file = demo_prots and hmm_files = "[''Resfams.hmm'']"
      and integrons = "[in0_integron, complete_integron]" and ev = demo_env
      and replicon = gi_replicon and cfg = demo_cfg and out_dir = "''out''"
      and eval_thr = 10 and coverage = "0.5"] m
  have "fst (fst (snd ?r1) ! 0) ! 2 = str_nat (length demo_prots)" by blast
  then have 2: "fst (fst (snd ?r1) ! 0) ! 2 = ''3''" by (simp add: l str_nat.simps)
  have 3: "length (snd (fst (snd ?r1) ! 0)) = 1" unfolding c by simp
  from a 1 l 2 3 show ?thesis by blast
qed

text \<open>
  Without a profile no command line is built: on an empty protein file
  \<^verbatim>\<open>func_annot\<close> returns, although the integron is complete and has a protein.
\<close>

theorem no_profile_counterexample:
  "itype demo_env complete_integron \<noteq> ''In0'' \<and> proteins complete_integron \<noteq> [] \<and>
   func_annot demo_env [complete_integron] gi_replicon [] [] demo_cfg ''out'' 10 0.5 =
     ([complete_integron], [], None)"
  by (simp add: func_annot_def annotate_def loc_assign_def sort_dedup_def
      demo_env_def spec_type_def complete_integron_def mk_feature_row_def)

end
